theory Spec2Isabelle
  imports Main "HOL-Library.AList" "HOL-Library.Sublist" "HOL-Library.Log_Nat"
begin

section \<open>Data model (src/types/index.ts)\<close>

text \<open>
  Strings are lists of 8-bit characters: the model covers JavaScript strings whose code
  units are below 256, one \<^typ>\<open>char\<close> per code unit. A \<open>Map\<close> and a \<open>Record\<close> are
  association lists in insertion order (the order \<open>Object.keys\<close>, \<open>Object.values\<close> and
  \<open>Map.entries\<close> enumerate; the record keys are nanoid(12) strings, which are never
  array indices, so no key is moved to the front). Timestamps, lengths and streaks are
  integers, far below the 2^53 up to which doubles count exactly (a streak grows by one
  per accepted guess). Scores, elapsed times and \<open>timePerRound\<close>, which enter the
  floating-point arithmetic of \<open>submitGuess\<close>, are doubles (\<open>jsnum\<close> below); the other
  numbers a client sends in a settings object are rationals (every finite double is one).
\<close>

subsection \<open>Numbers\<close>

text \<open>
  A JavaScript number is a double: a finite value, one of the two zeros, one of the two
  infinities, or \<open>NaN\<close>. \<open>Fin q\<close> is the double whose value is the rational \<open>q\<close>
  (\<open>Fin 0\<close> is the positive zero). Every arithmetic operation rounds its exact result to
  the nearest double, ties to even: \<open>roundNum\<close>, with 53 significant bits, gradual
  underflow below \<open>2^-1022\<close> and overflow to infinity from \<open>2^1024\<close> on. \<open>binade q\<close> is
  the exponent \<open>e\<close> with \<open>2^e \<le> |q| < 2^(e+1)\<close>.
\<close>

datatype jsnum = Fin rat | NegZero | Infinity | NegInfinity | NaN

definition binade :: "rat \<Rightarrow> int" where
  "binade q =
     (let (n, d) = quotient_of \<bar>q\<bar>;
          k = int (floorlog 2 (nat n)) - int (floorlog 2 (nat d))
      in if 2 powi k \<le> \<bar>q\<bar> then k else k - 1)"

definition roundHalfEven :: "rat \<Rightarrow> int" where
  "roundHalfEven x =
     (let f = \<lfloor>x\<rfloor>; r = x - of_int f
      in if r < 1 / 2 then f else if 1 / 2 < r then f + 1 else if even f then f else f + 1)"

definition signedZero :: "bool \<Rightarrow> jsnum" where
  "signedZero negative = (if negative then NegZero else Fin 0)"

definition signedInfinity :: "bool \<Rightarrow> jsnum" where
  "signedInfinity negative = (if negative then NegInfinity else Infinity)"

definition roundNum :: "rat \<Rightarrow> jsnum" where
  "roundNum q =
     (if q = 0 then Fin 0
      else
        let u = 2 powi (max (binade q - 52) (- 1074));
            r = of_int (roundHalfEven (q / u)) * u
        in if 2 powi 1024 \<le> \<bar>r\<bar> then signedInfinity (q < 0)
           else if r = 0 then signedZero (q < 0)
           else Fin r)"

text \<open>The finite value of a number, if it has one, and its sign bit.\<close>

fun valueOf :: "jsnum \<Rightarrow> rat option" where
  "valueOf (Fin q) = Some q"
| "valueOf NegZero = Some 0"
| "valueOf x = None"

fun isNegative :: "jsnum \<Rightarrow> bool" where
  "isNegative (Fin q) = (q < 0)"
| "isNegative NegZero = True"
| "isNegative NegInfinity = True"
| "isNegative x = False"

text \<open>The operators \<open>+\<close>, unary and binary \<open>-\<close>, \<open>*\<close> and \<open>/\<close> on numbers.\<close>

definition jsadd :: "jsnum \<Rightarrow> jsnum \<Rightarrow> jsnum" where
  "jsadd a b =
     (if a = NaN \<or> b = NaN then NaN
      else case (valueOf a, valueOf b) of
        (Some x, Some y) \<Rightarrow>
          if x + y = 0 then (if a = NegZero \<and> b = NegZero then NegZero else Fin 0)
          else roundNum (x + y)
      | (None, Some y) \<Rightarrow> a
      | (Some x, None) \<Rightarrow> b
      | (None, None) \<Rightarrow> if a = b then a else NaN)"

fun jsneg :: "jsnum \<Rightarrow> jsnum" where
  "jsneg (Fin q) = (if q = 0 then NegZero else Fin (- q))"
| "jsneg NegZero = Fin 0"
| "jsneg Infinity = NegInfinity"
| "jsneg NegInfinity = Infinity"
| "jsneg NaN = NaN"

definition jssub :: "jsnum \<Rightarrow> jsnum \<Rightarrow> jsnum" where
  "jssub a b = jsadd a (jsneg b)"

definition jsmul :: "jsnum \<Rightarrow> jsnum \<Rightarrow> jsnum" where
  "jsmul a b =
     (if a = NaN \<or> b = NaN then NaN
      else case (valueOf a, valueOf b) of
        (Some x, Some y) \<Rightarrow>
          if x = 0 \<or> y = 0 then signedZero (isNegative a \<noteq> isNegative b)
          else roundNum (x * y)
      | (None, Some y) \<Rightarrow>
          if y = 0 then NaN else signedInfinity (isNegative a \<noteq> isNegative b)
      | (Some x, None) \<Rightarrow>
          if x = 0 then NaN else signedInfinity (isNegative a \<noteq> isNegative b)
      | (None, None) \<Rightarrow> signedInfinity (isNegative a \<noteq> isNegative b))"

definition jsdiv :: "jsnum \<Rightarrow> jsnum \<Rightarrow> jsnum" where
  "jsdiv a b =
     (if a = NaN \<or> b = NaN then NaN
      else case (valueOf a, valueOf b) of
        (Some x, Some y) \<Rightarrow>
          if y = 0 then (if x = 0 then NaN else signedInfinity (isNegative a \<noteq> isNegative b))
          else if x = 0 then signedZero (isNegative a \<noteq> isNegative b)
          else roundNum (x / y)
      | (None, Some y) \<Rightarrow> signedInfinity (isNegative a \<noteq> isNegative b)
      | (Some x, None) \<Rightarrow> signedZero (isNegative a \<noteq> isNegative b)
      | (None, None) \<Rightarrow> NaN)"

text \<open>\<open>Math.floor(x)\<close> and \<open>Math.max(0, x)\<close>; for the latter the positive zero is the larger zero.\<close>

fun mathFloor :: "jsnum \<Rightarrow> jsnum" where
  "mathFloor (Fin q) = Fin (of_int \<lfloor>q\<rfloor>)"
| "mathFloor x = x"

fun mathMax0 :: "jsnum \<Rightarrow> jsnum" where
  "mathMax0 (Fin q) = Fin (max 0 q)"
| "mathMax0 NegZero = Fin 0"
| "mathMax0 Infinity = Infinity"
| "mathMax0 NegInfinity = Fin 0"
| "mathMax0 NaN = NaN"

subsection \<open>Records\<close>

record avatar =
  emoji :: string
  color :: string

datatype song_source = Youtube | Spotify

record song =
  song_id :: string
  title :: string
  artist :: string
  album :: "string option"
  coverUrl :: "string option"
  source :: song_source
  sourceId :: string
  duration :: rat
  previewUrl :: "string option"
  startTime :: rat
  endTime :: rat

datatype game_mode = Classic | Blitz | Elimination | Marathon

datatype guess_style = TypeIn | Grid | MultipleChoice

datatype lobby_state = Waiting | Starting | Playing | RoundEnd | GameOver

record game_settings =
  mode :: game_mode
  guessStyle :: guess_style
  rounds :: rat
  timePerRound :: jsnum
  snippetDuration :: rat
  maxPlayers :: rat
  hintsEnabled :: bool
  showArtist :: bool
  scoreMultiplierSpeed :: bool

definition DEFAULT_SETTINGS :: game_settings where
  "DEFAULT_SETTINGS =
     \<lparr>mode = Classic, guessStyle = TypeIn, rounds = 15, timePerRound = Fin 30,
      snippetDuration = 5, maxPlayers = 12, hintsEnabled = True, showArtist = False,
      scoreMultiplierSpeed = True\<rparr>"

text \<open>\<open>Partial<GameSettings>\<close>: every field may be absent.\<close>

record partial_settings =
  p_mode :: "game_mode option"
  p_guessStyle :: "guess_style option"
  p_rounds :: "rat option"
  p_timePerRound :: "jsnum option"
  p_snippetDuration :: "rat option"
  p_maxPlayers :: "rat option"
  p_hintsEnabled :: "bool option"
  p_showArtist :: "bool option"
  p_scoreMultiplierSpeed :: "bool option"

record player =
  player_id :: string
  socketId :: string
  player_name :: string
  player_avatar :: avatar
  score :: jsnum
  streak :: nat
  isHost :: bool
  isReady :: bool
  hasGuessed :: bool
  lastGuessCorrect :: bool
  roundScore :: jsnum

datatype round_phase = PhasePlaying | PhaseReveal

record guess_entry =
  g_guess :: string
  g_correct :: bool
  g_time :: jsnum
  g_score :: jsnum

record round_state =
  roundNumber :: nat
  round_song :: song
  startedAt :: int
  phase :: round_phase
  guesses :: "(string \<times> guess_entry) list"
  gridOptions :: "string list option"

record lobby =
  code :: string
  hostId :: string
  state :: lobby_state
  players :: "(string \<times> player) list"
  settings :: game_settings
  songs :: "song list"
  currentRound :: "round_state option"
  roundHistory :: "round_state list"
  createdAt :: int

text \<open>The three private maps of the \<open>GameManager\<close> class.\<close>

record game_manager =
  lobbies :: "(string \<times> lobby) list"
  playerToLobby :: "(string \<times> string) list"
  playerIds :: "(string \<times> string) list"

text \<open>
  What a method can raise: \<open>throw new Error(msg)\<close>, the \<open>TypeError\<close> of reading a
  property of \<open>undefined\<close>, and the \<open>RangeError\<close> of a recursion that never ends.
  \<open>DrawOutOfRange\<close> is no JavaScript error: it marks a random index that
  \<open>Math.floor(Math.random() * n)\<close> cannot produce (an index of \<open>n\<close> or more).
\<close>

datatype failure = Error string | TypeError | RangeError | DrawOutOfRange

section \<open>Guess matcher (GameManager.checkGuess, GameManager.levenshteinDistance)\<close>

subsection \<open>String primitives\<close>

text \<open>
  The character classes of the regular expressions: \<open>\s\<close> (tab to carriage return,
  space, no-break space) and \<open>\w\<close> (\<open>[A-Za-z0-9_]\<close>).
\<close>

definition isSpace :: "char \<Rightarrow> bool" where
  "isSpace c = (let n = (of_char c :: nat) in (9 \<le> n \<and> n \<le> 13) \<or> n = 32 \<or> n = 160)"

definition isWord :: "char \<Rightarrow> bool" where
  "isWord c = (let n = (of_char c :: nat) in
     (48 \<le> n \<and> n \<le> 57) \<or> (65 \<le> n \<and> n \<le> 90) \<or> n = 95 \<or> (97 \<le> n \<and> n \<le> 122))"

text \<open>\<open>String.prototype.toLowerCase\<close> on code units below 256.\<close>

definition toLowerChar :: "char \<Rightarrow> char" where
  "toLowerChar c = (let n = (of_char c :: nat) in
     if (65 \<le> n \<and> n \<le> 90) \<or> (192 \<le> n \<and> n \<le> 222 \<and> n \<noteq> 215) then char_of (n + 32)
     else c)"

definition toLowerCase :: "string \<Rightarrow> string" where
  "toLowerCase s = map toLowerChar s"

text \<open>
  \<open>String.prototype.toUpperCase\<close> on code units below 256. The sharp s becomes \<open>SS\<close>;
  the images of the micro sign and of y with diaeresis lie above 255 and are left as
  they are, so the model is exact on every other string.
\<close>

definition toUpperChar :: "char \<Rightarrow> string" where
  "toUpperChar c = (let n = (of_char c :: nat) in
     if (97 \<le> n \<and> n \<le> 122) \<or> (224 \<le> n \<and> n \<le> 254 \<and> n \<noteq> 247) then [char_of (n - 32)]
     else if n = 223 then ''SS''
     else [c])"

definition toUpperCase :: "string \<Rightarrow> string" where
  "toUpperCase s = concat (map toUpperChar s)"

text \<open>\<open>.replace(/[^\w\s]/g, '')\<close>\<close>

definition stripPunctuation :: "string \<Rightarrow> string" where
  "stripPunctuation s = filter (\<lambda>c. isWord c \<or> isSpace c) s"

text \<open>\<open>.replace(/\s+/g, ' ')\<close>: every maximal run of white space becomes one space.\<close>

function collapseSpaces :: "string \<Rightarrow> string" where
  "collapseSpaces [] = []"
| "collapseSpaces (c # cs) =
     (if isSpace c then CHR '' '' # collapseSpaces (dropWhile isSpace cs)
      else c # collapseSpaces cs)"
  by pat_completeness auto
termination
  by (relation "measure length") (auto simp: less_Suc_eq_le length_dropWhile_le)

definition trim :: "string \<Rightarrow> string" where
  "trim s = rev (dropWhile isSpace (rev (dropWhile isSpace s)))"

text \<open>The local function \<open>normalize\<close> of \<open>checkGuess\<close>.\<close>

definition normalize_str :: "string \<Rightarrow> string" where
  "normalize_str s = trim (collapseSpaces (stripPunctuation (toLowerCase s)))"

text \<open>
  \<open>song.title.split(/\s*[-|]\s*/)\<close> (the en and em dash of the source's character
  class are code units above 255). At each position the expression matches when the
  white space from there on is followed by a separator; the match then takes the white
  space after the separator too. \<open>tok\<close> is the piece collected so far.
\<close>

definition isSeparator :: "char \<Rightarrow> bool" where
  "isSeparator c = (c = CHR ''-'' \<or> c = CHR ''|'')"

function splitTitle :: "string \<Rightarrow> string \<Rightarrow> string list" where
  "splitTitle tok [] = [tok]"
| "splitTitle tok (c # cs) =
     (case dropWhile isSpace (c # cs) of
        [] \<Rightarrow> splitTitle (tok @ [c]) cs
      | d # ds \<Rightarrow> if isSeparator d then tok # splitTitle [] (dropWhile isSpace ds)
                  else splitTitle (tok @ [c]) cs)"
  by pat_completeness auto
termination
proof (relation "measure (\<lambda>(tok, s). length s)", goal_cases)
  case 1
  show ?case by simp
next
  case (2 tok c cs)
  then show ?case by simp
next
  case (3 tok c cs d ds)
  have "length (dropWhile isSpace ds) \<le> length ds"
    by (rule length_dropWhile_le)
  moreover have "length (d # ds) \<le> length (c # cs)"
    using 3(1) length_dropWhile_le [of isSpace "c # cs"] by simp
  ultimately show ?case by simp
next
  case (4 tok c cs d ds)
  then show ?case by simp
qed

text \<open>\<open>s.includes(sub)\<close>\<close>

fun str_includes :: "string \<Rightarrow> string \<Rightarrow> bool" where
  "str_includes [] sub = (sub = [])"
| "str_includes (c # cs) sub = (prefix sub (c # cs) \<or> str_includes cs sub)"

subsection \<open>Edit distance\<close>

text \<open>
  \<open>matrix\<close> is an array of rows. A write \<open>xs[j] = v\<close> overwrites when \<open>j\<close> is inside
  the array and appends when \<open>j\<close> is its length; the loops below never write further
  out.
\<close>

definition jsWrite :: "'a list \<Rightarrow> nat \<Rightarrow> 'a \<Rightarrow> 'a list" where
  "jsWrite xs j v = (if j < length xs then xs[j := v] else xs @ [v])"

definition matrixWrite :: "nat list list \<Rightarrow> nat \<Rightarrow> nat \<Rightarrow> nat \<Rightarrow> nat list list" where
  "matrixWrite m i j v = m[i := jsWrite (m ! i) j v]"

text \<open>The two initialising loops: \<open>matrix[i] = [i]\<close>, then \<open>matrix[0][j] = j\<close>.\<close>

definition levInit :: "'a list \<Rightarrow> 'a list \<Rightarrow> nat list list" where
  "levInit a b =
     fold (\<lambda>j m. matrixWrite m 0 j j) [0..<Suc (length a)]
       (fold (\<lambda>i m. jsWrite m i [i]) [0..<Suc (length b)] [])"

text \<open>The body of the inner loop: the value written to \<open>matrix[i][j]\<close>.\<close>

definition levCell :: "'a list \<Rightarrow> 'a list \<Rightarrow> nat list list \<Rightarrow> nat \<Rightarrow> nat \<Rightarrow> nat" where
  "levCell a b m i j =
     (if b ! (i - 1) = a ! (j - 1) then m ! (i - 1) ! (j - 1)
      else min (m ! (i - 1) ! (j - 1) + 1) (min (m ! i ! (j - 1) + 1) (m ! (i - 1) ! j + 1)))"

text \<open>The inner loop, \<open>j\<close> from 1 to \<open>a.length\<close>, and the outer one over \<open>i\<close>.\<close>

definition levRow :: "'a list \<Rightarrow> 'a list \<Rightarrow> nat \<Rightarrow> nat list list \<Rightarrow> nat list list" where
  "levRow a b i m = fold (\<lambda>j m. matrixWrite m i j (levCell a b m i j)) [1..<Suc (length a)] m"

definition levMatrix :: "'a list \<Rightarrow> 'a list \<Rightarrow> nat list list" where
  "levMatrix a b = fold (levRow a b) [1..<Suc (length b)] (levInit a b)"

definition levenshteinDistance :: "'a list \<Rightarrow> 'a list \<Rightarrow> nat" where
  "levenshteinDistance a b = levMatrix a b ! length b ! length a"

text \<open>
  The Levenshtein distance as it is defined, for comparison with the loops above:
  \<open>lev a b i j\<close> is the distance between the first \<open>j\<close> characters of \<open>a\<close> and the
  first \<open>i\<close> characters of \<open>b\<close>, the least cost of a deletion, an insertion or a
  substitution (free when the two characters agree) after a shorter prefix.
\<close>

fun lev :: "'a list \<Rightarrow> 'a list \<Rightarrow> nat \<Rightarrow> nat \<Rightarrow> nat" where
  "lev a b 0 j = j"
| "lev a b (Suc i) 0 = Suc i"
| "lev a b (Suc i) (Suc j) =
     min (lev a b i j + (if b ! i = a ! j then 0 else 1))
         (min (lev a b (Suc i) j + 1) (lev a b i (Suc j) + 1))"

subsection \<open>checkGuess\<close>

text \<open>\<open>Math.max(1, Math.floor(n * 0.25))\<close>; the product with 0.25 is exact in doubles.\<close>

definition threshold :: "nat \<Rightarrow> nat" where
  "threshold n = max 1 (nat \<lfloor>rat_of_nat n * 0.25\<rfloor>)"

definition titleParts :: "song \<Rightarrow> string list" where
  "titleParts s = filter (\<lambda>p. length p > 0) (map normalize_str (splitTitle [] (title s)))"

text \<open>
  The \<open>for\<close> loop over the title parts: \<open>True\<close> when some iteration returns true,
  \<open>False\<close> when the loop runs to its end.
\<close>

fun matchParts :: "string \<Rightarrow> string list \<Rightarrow> bool" where
  "matchParts g [] = False"
| "matchParts g (part # rest) =
     (if length part < 2 then matchParts g rest
      else if g = part then True
      else if levenshteinDistance g part \<le> threshold (length part) then True
      else matchParts g rest)"

definition checkGuess :: "string \<Rightarrow> song \<Rightarrow> bool" where
  "checkGuess guess s =
     (let normalizedGuess = normalize_str guess;
          normalizedTitle = normalize_str (title s);
          normalizedArtist = normalize_str (artist s)
      in if normalizedGuess = normalizedTitle then True
         else if matchParts normalizedGuess (titleParts s) then True
         else if normalizedGuess = normalizedArtist then True
         else if levenshteinDistance normalizedGuess normalizedArtist
                   \<le> threshold (length normalizedArtist) then True
         else if levenshteinDistance normalizedGuess normalizedTitle
                   \<le> threshold (length normalizedTitle) then True
         else if str_includes normalizedTitle normalizedGuess \<and> length normalizedGuess \<ge> 3 then True
         else if str_includes normalizedGuess normalizedTitle then True
         else False)"

section \<open>Lobby registry (class GameManager)\<close>

subsection \<open>Lookups\<close>

text \<open>
  A lobby object is shared by reference; the model names it by its key in \<open>lobbies\<close>
  and writes every mutation back under that key. \<open>getLobbyBySocket\<close> therefore
  returns the key with the lobby. An empty string is falsy, so \<open>!code\<close> and
  \<open>x || null\<close> treat it like a missing entry.
\<close>

definition getLobbyBySocket :: "game_manager \<Rightarrow> string \<Rightarrow> (string \<times> lobby) option" where
  "getLobbyBySocket m sid =
     (case map_of (playerToLobby m) sid of
        None \<Rightarrow> None
      | Some c \<Rightarrow> if c = [] then None
                  else (case map_of (lobbies m) c of None \<Rightarrow> None | Some l \<Rightarrow> Some (c, l)))"

definition getPlayerIdBySocket :: "game_manager \<Rightarrow> string \<Rightarrow> string option" where
  "getPlayerIdBySocket m sid =
     (case map_of (playerIds m) sid of
        None \<Rightarrow> None
      | Some p \<Rightarrow> if p = [] then None else Some p)"

definition putLobby :: "string \<Rightarrow> lobby \<Rightarrow> game_manager \<Rightarrow> game_manager" where
  "putLobby c l m = m\<lparr>lobbies := AList.update c l (lobbies m)\<rparr>"

text \<open>
  The opening lines shared by the methods a socket calls:
  \<open>if (!lobby || !playerId) return null\<close>, and for the host's methods
  \<open>if (lobby.hostId !== playerId) return null\<close>.
\<close>

definition callerLobby :: "game_manager \<Rightarrow> string \<Rightarrow> (string \<times> lobby \<times> string) option" where
  "callerLobby m sid =
     (case getLobbyBySocket m sid of
        None \<Rightarrow> None
      | Some (c, l) \<Rightarrow>
          (case getPlayerIdBySocket m sid of None \<Rightarrow> None | Some playerId \<Rightarrow> Some (c, l, playerId)))"

definition hostLobby :: "game_manager \<Rightarrow> string \<Rightarrow> (string \<times> lobby) option" where
  "hostLobby m sid =
     (case callerLobby m sid of
        None \<Rightarrow> None
      | Some (c, l, playerId) \<Rightarrow> if hostId l \<noteq> playerId then None else Some (c, l))"

subsection \<open>generateCode, createLobby, joinLobby, leaveLobby\<close>

text \<open>
  \<open>rnd i\<close> is the value of the i-th evaluation of
  \<open>Math.floor(Math.random() * chars.length)\<close>. An index outside the string reads
  \<open>undefined\<close>, which \<open>+=\<close> appends as the text \<open>undefined\<close>. The method calls itself
  until the code is free, so it may never return: \<open>None\<close>.
\<close>

definition chars :: string where
  "chars = ''ABCDEFGHJKLMNPQRSTUVWXYZ23456789''"

definition charAt :: "string \<Rightarrow> nat \<Rightarrow> string" where
  "charAt s i = (if i < length s then [s ! i] else ''undefined'')"

definition codeFrom :: "(nat \<Rightarrow> nat) \<Rightarrow> nat \<Rightarrow> string" where
  "codeFrom rnd k = fold (\<lambda>i c. c @ charAt chars (rnd (k + i))) [0..<5] []"

partial_function (option) generateCode ::
  "(string \<times> lobby) list \<Rightarrow> (nat \<Rightarrow> nat) \<Rightarrow> nat \<Rightarrow> (string \<times> nat) option" where
  "generateCode ls rnd k =
     (let c = codeFrom rnd k
      in if map_of ls c \<noteq> None then generateCode ls rnd (k + 5) else Some (c, k + 5))"

text \<open>
  \<open>playerId\<close> is the value of \<open>nanoid(12)\<close>, \<open>now\<close> that of \<open>Date.now()\<close>. A run of
  \<open>generateCode\<close> that never returns ends in practice with the \<open>RangeError\<close> of the
  exhausted call stack, before anything is stored.
\<close>

definition createLobby ::
  "game_manager \<Rightarrow> string \<Rightarrow> string \<Rightarrow> avatar \<Rightarrow> (nat \<Rightarrow> nat) \<Rightarrow> string \<Rightarrow> int
     \<Rightarrow> failure + ((lobby \<times> string) \<times> game_manager)" where
  "createLobby m sid playerName av rnd playerId now =
     (case generateCode (lobbies m) rnd 0 of
        None \<Rightarrow> Inl RangeError
      | Some (c, k) \<Rightarrow>
          let p = \<lparr>player_id = playerId, socketId = sid, player_name = playerName,
                   player_avatar = av, score = Fin 0, streak = 0, isHost = True,
                   isReady = True, hasGuessed = False, lastGuessCorrect = False,
                   roundScore = Fin 0\<rparr>;
              l = \<lparr>code = c, hostId = playerId, state = Waiting, players = [(playerId, p)],
                   settings = DEFAULT_SETTINGS, songs = [], currentRound = None,
                   roundHistory = [], createdAt = now\<rparr>
          in Inr ((l, playerId),
                  m\<lparr>lobbies := AList.update c l (lobbies m),
                    playerToLobby := AList.update sid c (playerToLobby m),
                    playerIds := AList.update sid playerId (playerIds m)\<rparr>))"

definition joinLobby ::
  "game_manager \<Rightarrow> string \<Rightarrow> string \<Rightarrow> string \<Rightarrow> avatar \<Rightarrow> string
     \<Rightarrow> failure + ((lobby \<times> string) \<times> game_manager)" where
  "joinLobby m c sid playerName av playerId =
     (case map_of (lobbies m) (toUpperCase c) of
        None \<Rightarrow> Inl (Error ''Lobby not found'')
      | Some l \<Rightarrow>
          if state l \<noteq> Waiting then Inl (Error ''Game already in progress'')
          else if maxPlayers (settings l) \<le> rat_of_nat (length (players l))
          then Inl (Error ''Lobby is full'')
          else
            let p = \<lparr>player_id = playerId, socketId = sid, player_name = playerName,
                     player_avatar = av, score = Fin 0, streak = 0, isHost = False,
                     isReady = False, hasGuessed = False, lastGuessCorrect = False,
                     roundScore = Fin 0\<rparr>;
                l' = l\<lparr>players := AList.update playerId p (players l)\<rparr>
            in Inr ((l', playerId),
                    m\<lparr>lobbies := AList.update (toUpperCase c) l' (lobbies m),
                      playerToLobby := AList.update sid (toUpperCase c) (playerToLobby m),
                      playerIds := AList.update sid playerId (playerIds m)\<rparr>))"

record leave_result =
  left_lobby :: "lobby option"
  left_playerId :: string
  wasHost :: bool

definition dropSocket :: "string \<Rightarrow> game_manager \<Rightarrow> game_manager" where
  "dropSocket sid m =
     m\<lparr>playerToLobby := AList.delete sid (playerToLobby m),
       playerIds := AList.delete sid (playerIds m)\<rparr>"

definition leaveLobby :: "game_manager \<Rightarrow> string \<Rightarrow> leave_result option \<times> game_manager" where
  "leaveLobby m sid =
     (case (map_of (playerToLobby m) sid, map_of (playerIds m) sid) of
        (Some c, Some playerId) \<Rightarrow>
          if c = [] \<or> playerId = [] then (None, m)
          else
            (case map_of (lobbies m) c of
               None \<Rightarrow> (None, m)
             | Some l \<Rightarrow>
                 let was = (case map_of (players l) playerId of
                              None \<Rightarrow> False | Some p \<Rightarrow> isHost p);
                     ps = AList.delete playerId (players l);
                     m1 = dropSocket sid m
                 in (case ps of
                       [] \<Rightarrow>
                         (Some \<lparr>left_lobby = None, left_playerId = playerId, wasHost = was\<rparr>,
                          m1\<lparr>lobbies := AList.delete c (lobbies m1)\<rparr>)
                     | (newHostId, newHost) # others \<Rightarrow>
                         let l' = (if was
                                   then l\<lparr>players := (newHostId, newHost\<lparr>isHost := True\<rparr>) # others,
                                          hostId := newHostId\<rparr>
                                   else l\<lparr>players := ps\<rparr>)
                         in (Some \<lparr>left_lobby = Some l', left_playerId = playerId,
                                   wasHost = was\<rparr>,
                             putLobby c l' m1)))
      | _ \<Rightarrow> (None, m))"

subsection \<open>Settings, songs, readiness\<close>

text \<open>\<open>{ ...lobby.settings, ...settings }\<close>\<close>

definition mergeSettings :: "game_settings \<Rightarrow> partial_settings \<Rightarrow> game_settings" where
  "mergeSettings st ps =
     \<lparr>mode = (case p_mode ps of None \<Rightarrow> mode st | Some v \<Rightarrow> v),
      guessStyle = (case p_guessStyle ps of None \<Rightarrow> guessStyle st | Some v \<Rightarrow> v),
      rounds = (case p_rounds ps of None \<Rightarrow> rounds st | Some v \<Rightarrow> v),
      timePerRound = (case p_timePerRound ps of None \<Rightarrow> timePerRound st | Some v \<Rightarrow> v),
      snippetDuration = (case p_snippetDuration ps of None \<Rightarrow> snippetDuration st | Some v \<Rightarrow> v),
      maxPlayers = (case p_maxPlayers ps of None \<Rightarrow> maxPlayers st | Some v \<Rightarrow> v),
      hintsEnabled = (case p_hintsEnabled ps of None \<Rightarrow> hintsEnabled st | Some v \<Rightarrow> v),
      showArtist = (case p_showArtist ps of None \<Rightarrow> showArtist st | Some v \<Rightarrow> v),
      scoreMultiplierSpeed =
        (case p_scoreMultiplierSpeed ps of None \<Rightarrow> scoreMultiplierSpeed st | Some v \<Rightarrow> v)\<rparr>"

definition updateSettings ::
  "game_manager \<Rightarrow> string \<Rightarrow> partial_settings \<Rightarrow> lobby option \<times> game_manager" where
  "updateSettings m sid ps =
     (case hostLobby m sid of
        None \<Rightarrow> (None, m)
      | Some (c, l) \<Rightarrow>
          let l' = l\<lparr>settings := mergeSettings (settings l) ps\<rparr>
          in (Some l', putLobby c l' m))"

text \<open>
  \<open>songData\<close> is a song without its id; the model takes a song and overwrites the id
  with \<open>newId\<close>, the value of \<open>nanoid(10)\<close> (\<open>newIds i\<close> for the i-th song of a bulk).
\<close>

definition addSong ::
  "game_manager \<Rightarrow> string \<Rightarrow> song \<Rightarrow> string \<Rightarrow> (lobby \<times> song) option \<times> game_manager" where
  "addSong m sid songData newId =
     (case hostLobby m sid of
        None \<Rightarrow> (None, m)
      | Some (c, l) \<Rightarrow>
          let s = songData\<lparr>song_id := newId\<rparr>;
              l' = l\<lparr>songs := songs l @ [s]\<rparr>
          in (Some (l', s), putLobby c l' m))"

definition addSongsBulk ::
  "game_manager \<Rightarrow> string \<Rightarrow> song list \<Rightarrow> (nat \<Rightarrow> string)
     \<Rightarrow> (lobby \<times> nat) option \<times> game_manager" where
  "addSongsBulk m sid songsData newIds =
     (case hostLobby m sid of
        None \<Rightarrow> (None, m)
      | Some (c, l) \<Rightarrow>
          let new = map (\<lambda>(i, s). s\<lparr>song_id := newIds i\<rparr>) (enumerate 0 songsData);
              l' = l\<lparr>songs := songs l @ new\<rparr>
          in (Some (l', length new), putLobby c l' m))"

definition removeSong :: "game_manager \<Rightarrow> string \<Rightarrow> string \<Rightarrow> lobby option \<times> game_manager" where
  "removeSong m sid songId =
     (case hostLobby m sid of
        None \<Rightarrow> (None, m)
      | Some (c, l) \<Rightarrow>
          let l' = l\<lparr>songs := filter (\<lambda>s. song_id s \<noteq> songId) (songs l)\<rparr>
          in (Some l', putLobby c l' m))"

definition toggleReady ::
  "game_manager \<Rightarrow> string \<Rightarrow> failure + (lobby option \<times> game_manager)" where
  "toggleReady m sid =
     (case callerLobby m sid of
        None \<Rightarrow> Inr (None, m)
      | Some (c, l, playerId) \<Rightarrow>
          (case map_of (players l) playerId of
             None \<Rightarrow> Inl TypeError
           | Some p \<Rightarrow>
               let l' = l\<lparr>players := AList.update playerId (p\<lparr>isReady := \<not> isReady p\<rparr>) (players l)\<rparr>
               in Inr (Some l', putLobby c l' m)))"

record start_check =
  can :: bool
  reason :: "string option"

definition canStartGame :: "lobby \<Rightarrow> start_check" where
  "canStartGame l =
     (let ps = map snd (players l)
      in if length ps < 1 then \<lparr>can = False, reason = Some ''Need at least 1 player''\<rparr>
         else if length (songs l) < 3 then \<lparr>can = False, reason = Some ''Need at least 3 songs''\<rparr>
         else
           let notReady = filter (\<lambda>p. \<not> isReady p \<and> \<not> isHost p) ps
           in if length notReady > 0
              then \<lparr>can = False, reason = Some ''Not all players are ready''\<rparr>
              else \<lparr>can = True, reason = None\<rparr>)"

subsection \<open>startGame, startRound\<close>

definition resetGuessState :: "player \<Rightarrow> player" where
  "resetGuessState p = p\<lparr>hasGuessed := False, lastGuessCorrect := False, roundScore := Fin 0\<rparr>"

definition resetScores :: "player \<Rightarrow> player" where
  "resetScores p =
     p\<lparr>score := Fin 0, streak := 0, hasGuessed := False, lastGuessCorrect := False,
       roundScore := Fin 0\<rparr>"

text \<open>\<open>Object.values(lobby.players).forEach(f)\<close>, for an \<open>f\<close> that assigns fields.\<close>

definition forEachPlayer :: "(player \<Rightarrow> player) \<Rightarrow> lobby \<Rightarrow> lobby" where
  "forEachPlayer f l = l\<lparr>players := map (\<lambda>(k, p). (k, f p)) (players l)\<rparr>"

definition startGame :: "game_manager \<Rightarrow> string \<Rightarrow> lobby option \<times> game_manager" where
  "startGame m sid =
     (case hostLobby m sid of
        None \<Rightarrow> (None, m)
      | Some (c, l) \<Rightarrow>
          if \<not> can (canStartGame l) then (None, m)
          else
            let l1 = forEachPlayer resetScores l;
                l2 = l1\<lparr>state := Playing, roundHistory := [], currentRound := None\<rparr>;
                l3 = l2\<lparr>settings :=
                        (settings l2)\<lparr>rounds :=
                           min (rounds (settings l2)) (rat_of_nat (length (songs l2)))\<rparr>\<rparr>
            in (Some l3, putLobby c l3 m))"

text \<open>
  \<open>pick\<close> is the value of \<open>Math.floor(Math.random() * availableSongs.length)\<close>,
  \<open>shuffleSongs\<close> and \<open>shuffleTitles\<close> are what the two sorts with a random comparison
  make of their arrays, \<open>now\<close> is \<open>Date.now()\<close>.
\<close>

definition availableSongs :: "lobby \<Rightarrow> song list" where
  "availableSongs l =
     (let usedSongIds = set (map (\<lambda>r. song_id (round_song r)) (roundHistory l))
      in filter (\<lambda>s. song_id s \<notin> usedSongIds) (songs l))"

definition makeGridOptions ::
  "lobby \<Rightarrow> song \<Rightarrow> (song list \<Rightarrow> song list) \<Rightarrow> (string list \<Rightarrow> string list)
     \<Rightarrow> string list option" where
  "makeGridOptions l s shuffleSongs shuffleTitles =
     (if guessStyle (settings l) = Grid \<or> guessStyle (settings l) = MultipleChoice
      then
        let otherSongs = filter (\<lambda>x. song_id x \<noteq> song_id s) (songs l);
            shuffled = shuffleSongs otherSongs;
            decoys = take (if guessStyle (settings l) = Grid then 8 else 3) shuffled
        in Some (shuffleTitles (map title decoys @ [title s]))
      else None)"

definition startRound ::
  "game_manager \<Rightarrow> string \<Rightarrow> nat \<Rightarrow> (song list \<Rightarrow> song list) \<Rightarrow> (string list \<Rightarrow> string list)
     \<Rightarrow> int \<Rightarrow> failure + (round_state option \<times> game_manager)" where
  "startRound m lobbyCode pick shuffleSongs shuffleTitles now =
     (case map_of (lobbies m) lobbyCode of
        None \<Rightarrow> Inr (None, m)
      | Some l \<Rightarrow>
          if state l \<noteq> Playing then Inr (None, m)
          else
            let number = length (roundHistory l) + 1
            in if rat_of_nat number > rounds (settings l) then Inr (None, m)
               else if length (availableSongs l) = 0 then Inr (None, m)
               else if length (availableSongs l) \<le> pick then Inl DrawOutOfRange
               else
                 let s = availableSongs l ! pick;
                     l1 = forEachPlayer resetGuessState l;
                     r = \<lparr>roundNumber = number, round_song = s, startedAt = now,
                          phase = PhasePlaying, guesses = [],
                          gridOptions = makeGridOptions l1 s shuffleSongs shuffleTitles\<rparr>;
                     l2 = l1\<lparr>currentRound := Some r\<rparr>
                 in Inr (Some r, putLobby lobbyCode l2 m))"

subsection \<open>submitGuess\<close>

text \<open>
  \<open>Math.max(0, Math.floor((1 - timeElapsed / timePerRound) * 500))\<close> when the speed
  multiplier is on, every operation in double arithmetic.
\<close>

definition timeBonus :: "game_settings \<Rightarrow> jsnum \<Rightarrow> jsnum" where
  "timeBonus st timeElapsed =
     (if scoreMultiplierSpeed st
      then mathMax0 (mathFloor (jsmul (jssub (Fin 1) (jsdiv timeElapsed (timePerRound st)))
                                  (Fin 500)))
      else Fin 0)"

record guess_result =
  r_correct :: bool
  r_score :: jsnum
  r_playerId :: string
  r_allGuessed :: bool

definition submitGuess ::
  "game_manager \<Rightarrow> string \<Rightarrow> string \<Rightarrow> int \<Rightarrow> failure + (guess_result option \<times> game_manager)" where
  "submitGuess m sid guess now =
     (case callerLobby m sid of
        None \<Rightarrow> Inr (None, m)
      | Some (c, l, playerId) \<Rightarrow>
          (case currentRound l of
             None \<Rightarrow> Inr (None, m)
           | Some r \<Rightarrow>
               (case map_of (players l) playerId of
                  None \<Rightarrow> Inl TypeError
                | Some p \<Rightarrow>
                    if hasGuessed p then Inr (None, m)
                    else
                      let timeElapsed =
                            jsdiv (jssub (Fin (of_int now)) (Fin (of_int (startedAt r))))
                              (Fin 1000);
                          correct = checkGuess guess (round_song r);
                          pts = (if correct
                                 then jsadd (jsadd (Fin 1000) (timeBonus (settings l) timeElapsed))
                                        (jsmul (Fin (of_nat (streak p))) (Fin 100))
                                 else Fin 0);
                          p1 = (if correct
                                then p\<lparr>streak := streak p + 1, score := jsadd (score p) pts\<rparr>
                                else p\<lparr>streak := 0\<rparr>);
                          p2 = p1\<lparr>hasGuessed := True, lastGuessCorrect := correct,
                                  roundScore := pts\<rparr>;
                          r' = r\<lparr>guesses :=
                                  AList.update playerId
                                    \<lparr>g_guess = guess, g_correct = correct, g_time = timeElapsed,
                                     g_score = pts\<rparr> (guesses r)\<rparr>;
                          l' = l\<lparr>players := AList.update playerId p2 (players l),
                                  currentRound := Some r'\<rparr>;
                          allGuessed = list_all (\<lambda>q. hasGuessed q) (map snd (players l'))
                      in Inr (Some \<lparr>r_correct = correct, r_score = pts, r_playerId = playerId,
                                    r_allGuessed = allGuessed\<rparr>,
                              putLobby c l' m))))"

subsection \<open>endRound, resetLobby, kickPlayer, cleanup\<close>

record round_summary =
  e_song :: song
  e_scores :: "(string \<times> jsnum) list"
  e_guesses :: "(string \<times> guess_entry) list"
  isGameOver :: bool

definition endRound :: "game_manager \<Rightarrow> string \<Rightarrow> round_summary option \<times> game_manager" where
  "endRound m lobbyCode =
     (case map_of (lobbies m) lobbyCode of
        None \<Rightarrow> (None, m)
      | Some l \<Rightarrow>
          (case currentRound l of
             None \<Rightarrow> (None, m)
           | Some r0 \<Rightarrow>
               let r = r0\<lparr>phase := PhaseReveal\<rparr>;
                   l1 = l\<lparr>roundHistory := roundHistory l @ [r]\<rparr>;
                   scores = fold (\<lambda>p acc. AList.update (player_id p) (score p) acc)
                              (map snd (players l1)) [];
                   over = (rounds (settings l1) \<le> rat_of_nat (length (roundHistory l1)));
                   l2 = (if over then l1\<lparr>state := GameOver\<rparr> else l1);
                   l3 = l2\<lparr>currentRound := None\<rparr>
               in (Some \<lparr>e_song = round_song r, e_scores = scores, e_guesses = guesses r,
                         isGameOver = over\<rparr>,
                   putLobby lobbyCode l3 m)))"

definition resetForLobby :: "player \<Rightarrow> player" where
  "resetForLobby p =
     p\<lparr>score := Fin 0, streak := 0, isReady := isHost p, hasGuessed := False,
       lastGuessCorrect := False, roundScore := Fin 0\<rparr>"

definition resetLobby :: "game_manager \<Rightarrow> string \<Rightarrow> lobby option \<times> game_manager" where
  "resetLobby m lobbyCode =
     (case map_of (lobbies m) lobbyCode of
        None \<Rightarrow> (None, m)
      | Some l \<Rightarrow>
          let l1 = l\<lparr>state := Waiting, currentRound := None, roundHistory := []\<rparr>;
              l2 = forEachPlayer resetForLobby l1
          in (Some l2, putLobby lobbyCode l2 m))"

definition kickPlayer ::
  "game_manager \<Rightarrow> string \<Rightarrow> string \<Rightarrow> (lobby \<times> string) option \<times> game_manager" where
  "kickPlayer m sid targetPlayerId =
     (case hostLobby m sid of
        None \<Rightarrow> (None, m)
      | Some (c, l) \<Rightarrow>
          (case map_of (players l) targetPlayerId of
             None \<Rightarrow> (None, m)
           | Some target \<Rightarrow>
               if isHost target then (None, m)
               else
                 let kickedSocketId = socketId target;
                     l' = l\<lparr>players := AList.delete targetPlayerId (players l)\<rparr>
                 in (Some (l', kickedSocketId), dropSocket kickedSocketId (putLobby c l' m))))"

definition maxAge :: int where
  "maxAge = 3 * 60 * 60 * 1000"

definition cleanup :: "game_manager \<Rightarrow> int \<Rightarrow> game_manager" where
  "cleanup m now =
     fold (\<lambda>(c, l) acc.
             if now - createdAt l > maxAge
             then (let acc1 = fold (\<lambda>p a. dropSocket (socketId p) a) (map snd (players l)) acc
                   in acc1\<lparr>lobbies := AList.delete c (lobbies acc1)\<rparr>)
             else acc)
          (lobbies m) m"

text \<open>
  \<open>getGameResults\<close> only reads a lobby (it sorts the fresh array that \<open>Object.values\<close>
  returns) and is not modelled.
\<close>

subsection \<open>Sequences of calls\<close>

text \<open>
  One constructor per state-changing method, with the values the call draws from its
  environment. \<open>step\<close> performs the call and keeps the manager; a call that raises
  does so before it has changed anything.
\<close>

datatype op =
    CreateLobby string string avatar "nat \<Rightarrow> nat" string int
  | JoinLobby string string string avatar string
  | LeaveLobby string
  | UpdateSettings string partial_settings
  | AddSong string song string
  | AddSongsBulk string "song list" "nat \<Rightarrow> string"
  | RemoveSong string string
  | ToggleReady string
  | StartGame string
  | StartRound string nat "song list \<Rightarrow> song list" "string list \<Rightarrow> string list" int
  | SubmitGuess string string int
  | EndRound string
  | ResetLobby string
  | KickPlayer string string
  | Cleanup int

definition afterCall :: "game_manager \<Rightarrow> failure + ('a \<times> game_manager) \<Rightarrow> game_manager" where
  "afterCall m res = (case res of Inl e \<Rightarrow> m | Inr (x, m') \<Rightarrow> m')"

fun step :: "op \<Rightarrow> game_manager \<Rightarrow> game_manager" where
  "step (CreateLobby sid playerName av rnd playerId now) m =
     afterCall m (createLobby m sid playerName av rnd playerId now)"
| "step (JoinLobby c sid playerName av playerId) m =
     afterCall m (joinLobby m c sid playerName av playerId)"
| "step (LeaveLobby sid) m = snd (leaveLobby m sid)"
| "step (UpdateSettings sid ps) m = snd (updateSettings m sid ps)"
| "step (AddSong sid songData newId) m = snd (addSong m sid songData newId)"
| "step (AddSongsBulk sid songsData newIds) m = snd (addSongsBulk m sid songsData newIds)"
| "step (RemoveSong sid songId) m = snd (removeSong m sid songId)"
| "step (ToggleReady sid) m = afterCall m (toggleReady m sid)"
| "step (StartGame sid) m = snd (startGame m sid)"
| "step (StartRound c pick shuffleSongs shuffleTitles now) m =
     afterCall m (startRound m c pick shuffleSongs shuffleTitles now)"
| "step (SubmitGuess sid guess now) m = afterCall m (submitGuess m sid guess now)"
| "step (EndRound c) m = snd (endRound m c)"
| "step (ResetLobby c) m = snd (resetLobby m c)"
| "step (KickPlayer sid targetPlayerId) m = snd (kickPlayer m sid targetPlayerId)"
| "step (Cleanup now) m = cleanup m now"

definition run :: "op list \<Rightarrow> game_manager \<Rightarrow> game_manager" where
  "run ops m = fold step ops m"

definition emptyManager :: game_manager where
  "emptyManager = \<lparr>lobbies = [], playerToLobby = [], playerIds = []\<rparr>"

section \<open>Auxiliary definitions for the proofs\<close>

text \<open>
  The distance between two whole strings, and row \<open>i\<close> of the matrix once its columns
  0 to \<open>k\<close> are written.
\<close>

definition editDistance :: "'a list \<Rightarrow> 'a list \<Rightarrow> nat" where
  "editDistance a b = lev a b (length b) (length a)"

definition levRowOf :: "'a list \<Rightarrow> 'a list \<Rightarrow> nat \<Rightarrow> nat \<Rightarrow> nat list" where
  "levRowOf a b i k = map (lev a b i) [0..<Suc k]"

subsection \<open>Example values\<close>

definition exAvatar :: avatar where
  "exAvatar = \<lparr>emoji = ''*'', color = ''#ff4757''\<rparr>"

definition exSong :: "string \<Rightarrow> string \<Rightarrow> string \<Rightarrow> song" where
  "exSong i t a =
     \<lparr>song_id = i, title = t, artist = a, album = None, coverUrl = None, source = Youtube,
      sourceId = ''dQw4'', duration = 200, previewUrl = None, startTime = 0, endTime = 5\<rparr>"

definition exPlayer :: "string \<Rightarrow> string \<Rightarrow> bool \<Rightarrow> bool \<Rightarrow> player" where
  "exPlayer i sid host ready =
     \<lparr>player_id = i, socketId = sid, player_name = ''Ann'', player_avatar = exAvatar,
      score = Fin 0, streak = 0, isHost = host, isReady = ready, hasGuessed = False,
      lastGuessCorrect = False, roundScore = Fin 0\<rparr>"

definition exLobby :: "(string \<times> player) list \<Rightarrow> song list \<Rightarrow> lobby" where
  "exLobby ps ss =
     \<lparr>code = ''ABCDE'', hostId = ''p1'', state = Waiting, players = ps,
      settings = DEFAULT_SETTINGS, songs = ss, currentRound = None, roundHistory = [],
      createdAt = 0\<rparr>"

definition exManager :: game_manager where
  "exManager =
     \<lparr>lobbies = [(''ABCDE'', exLobby [(''p1'', exPlayer ''p1'' ''s1'' True True)] [])],
      playerToLobby = [(''s1'', ''ABCDE'')],
      playerIds = [(''s1'', ''p1'')]\<rparr>"

definition exRound :: round_state where
  "exRound =
     \<lparr>roundNumber = 1, round_song = exSong ''a'' ''Yesterday'' ''The Beatles'',
      startedAt = 1000, phase = PhasePlaying, guesses = [], gridOptions = None\<rparr>"

definition exHost :: player where
  "exHost = (exPlayer ''p1'' ''s1'' True True)\<lparr>streak := 2, score := Fin 2100\<rparr>"

definition exGuest :: player where
  "exGuest = (exPlayer ''p2'' ''s2'' False True)\<lparr>streak := 1, score := Fin 1200\<rparr>"

definition exPlayingLobby :: lobby where
  "exPlayingLobby =
     (exLobby [(''p1'', exHost), (''p2'', exGuest)]
        [exSong ''a'' ''Yesterday'' ''The Beatles'', exSong ''b'' ''Let It Be'' ''The Beatles'',
         exSong ''c'' ''Help'' ''The Beatles''])
       \<lparr>state := Playing, currentRound := Some exRound\<rparr>"

definition exPlaying :: game_manager where
  "exPlaying =
     \<lparr>lobbies = [(''ABCDE'', exPlayingLobby)],
      playerToLobby = [(''s1'', ''ABCDE''), (''s2'', ''ABCDE'')],
      playerIds = [(''s1'', ''p1''), (''s2'', ''p2'')]\<rparr>"

definition exDraws :: "nat \<Rightarrow> nat" where
  "exDraws i = (if i < 5 then 0 else 1)"

text \<open>What a call returned to its caller, when it did not throw.\<close>

definition returned :: "failure + ('a option \<times> game_manager) \<Rightarrow> 'a option" where
  "returned x = (case x of Inl e \<Rightarrow> None | Inr (v, m) \<Rightarrow> v)"

text \<open>
  The points of a correct guess as the specification states them, in exact arithmetic
  and with the speed multiplier on: \<open>1000 + max(0, floor((1 - elapsed / timePerRound) * 500))
  + 100 * streak\<close>, for \<open>ms\<close> elapsed milliseconds and a round of \<open>T\<close> seconds.
\<close>

definition exactPoints :: "int \<Rightarrow> int \<Rightarrow> nat \<Rightarrow> int" where
  "exactPoints ms T s =
     1000 + max 0 \<lfloor>(1 - (rat_of_int ms / 1000) / rat_of_int T) * 500\<rfloor> + 100 * int s"

subsection \<open>The rounds invariant\<close>

text \<open>
  What holds of every lobby as long as \<open>rounds\<close> is only changed while the lobby is
  waiting, and never to a negative value: \<open>okOp m x\<close> says that the call \<open>x\<close>, made in
  state \<open>m\<close>, respects this, \<open>okRun\<close> that every call of a sequence does.
\<close>

definition roundsInv :: "lobby \<Rightarrow> bool" where
  "roundsInv l \<longleftrightarrow>
     0 \<le> rounds (settings l)
     \<and> rat_of_nat (length (roundHistory l)) \<le> rounds (settings l)
     \<and> (currentRound l \<noteq> None \<longrightarrow>
          state l = Playing \<and> rat_of_nat (length (roundHistory l)) + 1 \<le> rounds (settings l))
     \<and> (state l = GameOver \<longrightarrow> rat_of_nat (length (roundHistory l)) = rounds (settings l))
     \<and> (state l = Waiting \<longrightarrow> roundHistory l = [])"

definition managerInv :: "game_manager \<Rightarrow> bool" where
  "managerInv m \<longleftrightarrow> (\<forall>c l. map_of (lobbies m) c = Some l \<longrightarrow> roundsInv l)"

fun okOp :: "game_manager \<Rightarrow> op \<Rightarrow> bool" where
  "okOp m (UpdateSettings sid ps) =
     (case p_rounds ps of
        None \<Rightarrow> True
      | Some n \<Rightarrow> 0 \<le> n \<and> (case hostLobby m sid of None \<Rightarrow> True | Some (c, l) \<Rightarrow> state l = Waiting))"
| "okOp m x = True"

fun okRun :: "game_manager \<Rightarrow> op list \<Rightarrow> bool" where
  "okRun m [] = True"
| "okRun m (x # xs) = (okOp m x \<and> okRun (step x m) xs)"

definition lobbySummary :: "lobby \<Rightarrow> nat \<times> rat \<times> lobby_state" where
  "lobbySummary l = (length (roundHistory l), rounds (settings l), state l)"

definition noChange :: partial_settings where
  "noChange =
     \<lparr>p_mode = None, p_guessStyle = None, p_rounds = None, p_timePerRound = None,
      p_snippetDuration = None, p_maxPlayers = None, p_hintsEnabled = None,
      p_showArtist = None, p_scoreMultiplierSpeed = None\<rparr>"

definition exSetup :: "op list" where
  "exSetup =
     [CreateLobby ''s1'' ''Ann'' exAvatar (\<lambda>i. 0) ''p1'' 0,
      AddSong ''s1'' (exSong [] ''Yesterday'' ''The Beatles'') ''a'',
      AddSong ''s1'' (exSong [] ''Let It Be'' ''The Beatles'') ''b'',
      AddSong ''s1'' (exSong [] ''Help'' ''The Beatles'') ''c'']"

text \<open>A game in which the host lowers \<open>rounds\<close> to 1 while round 2 is being played.\<close>

definition exGame :: "op list" where
  "exGame =
     exSetup @
     [StartGame ''s1'',
      StartRound ''AAAAA'' 0 id id 3000,
      EndRound ''AAAAA'',
      StartRound ''AAAAA'' 0 id id 12000,
      UpdateSettings ''s1'' (noChange\<lparr>p_rounds := Some 1\<rparr>),
      EndRound ''AAAAA'']"

text \<open>A game of two rounds, the number set before the game starts.\<close>

definition exGameOk :: "op list" where
  "exGameOk =
     exSetup @
     [UpdateSettings ''s1'' (noChange\<lparr>p_rounds := Some 2\<rparr>),
      StartGame ''s1'',
      StartRound ''AAAAA'' 0 id id 3000,
      EndRound ''AAAAA'',
      StartRound ''AAAAA'' 0 id id 12000,
      EndRound ''AAAAA'']"

text \<open>The manager after \<open>exSetup\<close>: one waiting lobby with its host and three songs.\<close>

definition exReadyLobby :: lobby where
  "exReadyLobby =
     \<lparr>code = ''AAAAA'', hostId = ''p1'', state = Waiting,
      players = [(''p1'', exPlayer ''p1'' ''s1'' True True)], settings = DEFAULT_SETTINGS,
      songs = [exSong ''a'' ''Yesterday'' ''The Beatles'', exSong ''b'' ''Let It Be'' ''The Beatles'',
               exSong ''c'' ''Help'' ''The Beatles''],
      currentRound = None, roundHistory = [], createdAt = 0\<rparr>"

definition exReady :: game_manager where
  "exReady =
     \<lparr>lobbies = [(''AAAAA'', exReadyLobby)], playerToLobby = [(''s1'', ''AAAAA'')],
      playerIds = [(''s1'', ''p1'')]\<rparr>"

text \<open>
  The states such a game passes through: the lobby of \<open>exReady\<close> with \<open>rounds\<close>, state,
  current round and history replaced, and the round on song \<open>s\<close> started at \<open>t\<close>.
\<close>

definition exGameLobby ::
  "rat \<Rightarrow> lobby_state \<Rightarrow> round_state option \<Rightarrow> round_state list \<Rightarrow> lobby" where
  "exGameLobby n st cur h =
     exReadyLobby\<lparr>settings := DEFAULT_SETTINGS\<lparr>rounds := n\<rparr>, state := st,
       currentRound := cur, roundHistory := h\<rparr>"

definition exGameManager :: "lobby \<Rightarrow> game_manager" where
  "exGameManager l =
     \<lparr>lobbies = [(''AAAAA'', l)], playerToLobby = [(''s1'', ''AAAAA'')],
      playerIds = [(''s1'', ''p1'')]\<rparr>"

definition exRoundOf :: "nat \<Rightarrow> song \<Rightarrow> int \<Rightarrow> round_phase \<Rightarrow> round_state" where
  "exRoundOf k s t ph =
     \<lparr>roundNumber = k, round_song = s, startedAt = t, phase = ph, guesses = [],
      gridOptions = None\<rparr>"

section \<open>Properties\<close>

subsection \<open>The loops of levenshteinDistance compute the Levenshtein distance\<close>

lemma lev_zero_col: "lev a b i 0 = i"
  by (cases i) simp_all

lemma lev_right_le: "lev a b i (Suc j) \<le> lev a b i j + 1"
  by (cases i) simp_all

lemma lev_down_le: "lev a b (Suc i) j \<le> lev a b i j + 1"
  by (cases j) (simp_all add: lev_zero_col)

lemma lev_up_le: "lev a b i j \<le> lev a b (Suc i) j + 1"
proof (induction j arbitrary: i)
  case 0
  then show ?case by (cases i) simp_all
next
  case (Suc k)
  have "lev a b i (Suc k) \<le> lev a b i k + 1" by (rule lev_right_le)
  moreover have "lev a b i k \<le> lev a b (Suc i) k + 1" by (rule Suc.IH)
  ultimately show ?case by simp
qed

lemma lev_left_le: "lev a b i j \<le> lev a b i (Suc j) + 1"
proof (induction i arbitrary: j)
  case 0
  then show ?case by simp
next
  case (Suc i')
  have "lev a b (Suc i') j \<le> lev a b i' j + 1" by (rule lev_down_le)
  moreover have "lev a b i' j \<le> lev a b i' (Suc j) + 1" by (rule Suc.IH)
  ultimately show ?case by simp
qed

text \<open>Where the two characters agree the source copies the diagonal cell: it is the minimum.\<close>

lemma lev_diag: "b ! i = a ! j \<Longrightarrow> lev a b (Suc i) (Suc j) = lev a b i j"
  using lev_up_le [of a b i j] lev_left_le [of a b i j] by simp

lemma jsWrite_rows: "fold (\<lambda>i m. jsWrite m i [i]) [0..<n] [] = map (\<lambda>i. [i]) [0..<n]"
  by (induction n) (simp_all add: jsWrite_def)

lemma first_row:
  "fold (\<lambda>j m. matrixWrite m 0 j j) [0..<Suc n] ([0] # rest) = [0..<Suc n] # rest"
  by (induction n) (simp_all add: matrixWrite_def jsWrite_def)

lemma levInit_eq:
  "levInit a b = levRowOf a b 0 (length a) # map (\<lambda>i. [i]) [1..<Suc (length b)]"
proof -
  have "map (\<lambda>i. [i]) [0..<Suc (length b)] = [0] # map (\<lambda>i. [i]) [1..<Suc (length b)]"
    by (simp add: upt_conv_Cons del: upt_Suc)
  moreover have "levRowOf a b 0 (length a) = [0..<Suc (length a)]"
    unfolding levRowOf_def by (simp add: map_idI del: upt_Suc)
  ultimately show ?thesis
    unfolding levInit_def jsWrite_rows by (simp add: first_row del: upt_Suc)
qed

lemma levCell_value:
  assumes prev: "m ! i = levRowOf a b i (length a)"
    and cur: "m ! Suc i = levRowOf a b (Suc i) k"
    and k: "k < length a"
  shows "levCell a b m (Suc i) (Suc k) = lev a b (Suc i) (Suc k)"
proof -
  have p1: "m ! i ! k = lev a b i k" and p2: "m ! i ! Suc k = lev a b i (Suc k)"
    using k unfolding prev levRowOf_def by (simp_all add: nth_append del: upt_Suc)
  have c1: "m ! Suc i ! k = lev a b (Suc i) k"
    unfolding cur levRowOf_def by (simp add: nth_append del: upt_Suc)
  show ?thesis
  proof (cases "b ! i = a ! k")
    case True
    then show ?thesis by (simp add: levCell_def p1 lev_diag del: lev.simps)
  next
    case False
    then show ?thesis by (simp add: levCell_def p1 p2 c1)
  qed
qed

lemma levRow_inner:
  assumes len: "Suc i < length m"
    and prev: "m ! i = levRowOf a b i (length a)"
    and cur: "m ! Suc i = [Suc i]"
    and k: "k \<le> length a"
  shows "fold (\<lambda>j m. matrixWrite m (Suc i) j (levCell a b m (Suc i) j)) [1..<Suc k] m
           = m[Suc i := levRowOf a b (Suc i) k]"
  using k
proof (induction k)
  case 0
  have "levRowOf a b (Suc i) 0 = [Suc i]" by (simp add: levRowOf_def)
  then show ?case using cur list_update_id [of m "Suc i"] by simp
next
  case (Suc k)
  let ?m = "m[Suc i := levRowOf a b (Suc i) k]"
  have step: "fold (\<lambda>j m. matrixWrite m (Suc i) j (levCell a b m (Suc i) j)) [1..<Suc k] m = ?m"
    using Suc by simp
  have prev': "?m ! i = levRowOf a b i (length a)" using prev by simp
  have cur': "?m ! Suc i = levRowOf a b (Suc i) k" using len by simp
  have cell: "levCell a b ?m (Suc i) (Suc k) = lev a b (Suc i) (Suc k)"
    using levCell_value [OF prev' cur'] Suc.prems by simp
  have "matrixWrite ?m (Suc i) (Suc k) (lev a b (Suc i) (Suc k))
          = m[Suc i := levRowOf a b (Suc i) (Suc k)]"
    using len by (simp add: matrixWrite_def jsWrite_def levRowOf_def)
  then show ?case
    using step cell by (simp del: upt_Suc add: upt_Suc_append)
qed

lemma levRow_eq:
  assumes "Suc i < length m" and "m ! i = levRowOf a b i (length a)" and "m ! Suc i = [Suc i]"
  shows "levRow a b (Suc i) m = m[Suc i := levRowOf a b (Suc i) (length a)]"
  unfolding levRow_def using levRow_inner [OF assms, of "length a"] by simp

lemma levRows_outer:
  "k \<le> length b \<Longrightarrow>
   fold (levRow a b) [1..<Suc k] (levInit a b)
     = map (\<lambda>i. levRowOf a b i (length a)) [0..<Suc k] @ map (\<lambda>i. [i]) [Suc k..<Suc (length b)]"
proof (induction k)
  case 0
  then show ?case by (simp add: levInit_eq)
next
  case (Suc k)
  let ?m = "map (\<lambda>i. levRowOf a b i (length a)) [0..<Suc k]
              @ map (\<lambda>i. [i]) [Suc k..<Suc (length b)]"
  have ih: "fold (levRow a b) [1..<Suc k] (levInit a b) = ?m" using Suc by simp
  have len: "Suc k < length ?m" using Suc.prems by simp
  have prev: "?m ! k = levRowOf a b k (length a)"
    by (simp add: nth_append del: upt_Suc)
  have cur: "?m ! Suc k = [Suc k]"
    using Suc.prems by (simp add: nth_append del: upt_Suc)
  have "levRow a b (Suc k) ?m = ?m[Suc k := levRowOf a b (Suc k) (length a)]"
    by (rule levRow_eq [OF len prev cur])
  also have "\<dots> = map (\<lambda>i. levRowOf a b i (length a)) [0..<Suc (Suc k)]
                   @ map (\<lambda>i. [i]) [Suc (Suc k)..<Suc (length b)]"
  proof -
    have "[Suc k..<Suc (length b)] = Suc k # [Suc (Suc k)..<Suc (length b)]"
      using Suc.prems by (simp add: upt_conv_Cons del: upt_Suc)
    moreover have "[0..<Suc (Suc k)] = [0..<Suc k] @ [Suc k]" by simp
    ultimately show ?thesis
      by (simp add: list_update_append del: upt_Suc)
  qed
  finally show ?case using ih by (simp del: upt_Suc add: upt_Suc_append)
qed

lemma levenshteinDistance_eq: "levenshteinDistance a b = editDistance a b"
proof -
  have "levMatrix a b = map (\<lambda>i. levRowOf a b i (length a)) [0..<Suc (length b)]"
    unfolding levMatrix_def using levRows_outer [of "length b" b a] by simp
  then show ?thesis
    by (simp add: levenshteinDistance_def editDistance_def levRowOf_def nth_append del: upt_Suc)
qed

lemma editDistance_empty: "editDistance [] b = length b"
  by (simp add: editDistance_def lev_zero_col)

lemma lev_same: "lev a a n n = 0"
  by (induction n) (simp_all add: lev_diag del: lev.simps(3))

lemma editDistance_same: "editDistance a a = 0"
  by (simp add: editDistance_def lev_same)

lemma threshold_eq: "threshold n = max 1 (n div 4)"
proof -
  have "rat_of_nat n * 0.25 = rat_of_nat n / rat_of_nat 4" by simp
  then have "\<lfloor>rat_of_nat n * 0.25\<rfloor> = int (n div 4)"
    by (simp only: floor_divide_of_nat_eq)
  then show ?thesis by (simp add: threshold_def)
qed

subsection \<open>checkGuess\<close>

lemma normalize_str_empty: "normalize_str [] = []"
  by (simp add: normalize_str_def toLowerCase_def stripPunctuation_def trim_def)

lemma matchParts_iff:
  "matchParts g ps \<longleftrightarrow>
     (\<exists>p \<in> set ps. 2 \<le> length p \<and> (g = p \<or> editDistance g p \<le> max 1 (length p div 4)))"
  by (induction ps) (auto simp: levenshteinDistance_eq threshold_eq)

lemma checkGuess_iff:
  "checkGuess g s \<longleftrightarrow>
     (let ng = normalize_str g; nt = normalize_str (title s); na = normalize_str (artist s)
      in ng = nt \<or> matchParts ng (titleParts s) \<or> ng = na
         \<or> editDistance ng na \<le> max 1 (length na div 4)
         \<or> editDistance ng nt \<le> max 1 (length nt div 4)
         \<or> (str_includes nt ng \<and> 3 \<le> length ng) \<or> str_includes ng nt)"
  by (auto simp: checkGuess_def Let_def levenshteinDistance_eq threshold_eq)

text \<open>
  C2 (first half, and the second half as the code has it). For a song whose normalized
  title has at least 5 characters: a guess whose normalized text is within
  \<open>max(1, floor(length / 4))\<close> edits of the normalized title is accepted. A guess at
  exactly one edit more is rejected when no other rule of the matcher accepts it: no
  title part of two or more characters within its own threshold, the artist not within
  its threshold, the guess not a substring (of three or more characters) of the title
  and the title not a substring of the guess.
\<close>

theorem checkGuess_threshold:
  assumes "5 \<le> length (normalize_str (title s))"
  shows "(editDistance (normalize_str g) (normalize_str (title s))
            \<le> max 1 (length (normalize_str (title s)) div 4) \<longrightarrow> checkGuess g s)
       \<and> (editDistance (normalize_str g) (normalize_str (title s))
            = max 1 (length (normalize_str (title s)) div 4) + 1
          \<and> (\<forall>p \<in> set (titleParts s). 2 \<le> length p \<longrightarrow>
                max 1 (length p div 4) < editDistance (normalize_str g) p)
          \<and> max 1 (length (normalize_str (artist s)) div 4)
              < editDistance (normalize_str g) (normalize_str (artist s))
          \<and> \<not> (str_includes (normalize_str (title s)) (normalize_str g)
                \<and> 3 \<le> length (normalize_str g))
          \<and> \<not> str_includes (normalize_str g) (normalize_str (title s))
          \<longrightarrow> \<not> checkGuess g s)"
proof (intro conjI impI)
  assume "editDistance (normalize_str g) (normalize_str (title s))
            \<le> max 1 (length (normalize_str (title s)) div 4)"
  then show "checkGuess g s"
    by (simp add: checkGuess_iff Let_def)
next
  assume h: "editDistance (normalize_str g) (normalize_str (title s))
            = max 1 (length (normalize_str (title s)) div 4) + 1
          \<and> (\<forall>p \<in> set (titleParts s). 2 \<le> length p \<longrightarrow>
                max 1 (length p div 4) < editDistance (normalize_str g) p)
          \<and> max 1 (length (normalize_str (artist s)) div 4)
              < editDistance (normalize_str g) (normalize_str (artist s))
          \<and> \<not> (str_includes (normalize_str (title s)) (normalize_str g)
                \<and> 3 \<le> length (normalize_str g))
          \<and> \<not> str_includes (normalize_str g) (normalize_str (title s))"
  have "normalize_str g \<noteq> normalize_str (title s)"
    using h editDistance_same [of "normalize_str g"] by auto
  moreover have "normalize_str g \<noteq> normalize_str (artist s)"
    using h editDistance_same [of "normalize_str g"] by auto
  moreover have "\<not> matchParts (normalize_str g) (titleParts s)"
    using h editDistance_same [of "normalize_str g"] by (auto simp: matchParts_iff)
  ultimately show "\<not> checkGuess g s"
    using h by (auto simp: checkGuess_iff Let_def)
qed

theorem checkGuess_threshold_witness:
  "checkGuess ''Yesterdy!'' (exSong ''s1'' ''Yesterday'' ''The Beatles'')
   \<and> \<not> checkGuess ''yestxxxay'' (exSong ''s1'' ''Yesterday'' ''The Beatles'')"
proof -
  let ?s = "exSong ''s1'' ''Yesterday'' ''The Beatles''"
  have nt: "normalize_str (title ?s) = ''yesterday''" by code_simp
  have na: "normalize_str (artist ?s) = ''the beatles''" by code_simp
  have parts: "titleParts ?s = [''yesterday'']" by code_simp
  have g1: "normalize_str ''Yesterdy!'' = ''yesterdy''" by code_simp
  have g2: "normalize_str ''yestxxxay'' = ''yestxxxay''" by code_simp
  have d1: "editDistance ''yesterdy'' ''yesterday'' = 1"
    unfolding levenshteinDistance_eq [symmetric] by code_simp
  have d2: "editDistance ''yestxxxay'' ''yesterday'' = 3"
    unfolding levenshteinDistance_eq [symmetric] by code_simp
  have d3: "editDistance ''yestxxxay'' ''the beatles'' = 10"
    unfolding levenshteinDistance_eq [symmetric] by code_simp
  have i1: "\<not> str_includes ''yesterday'' ''yestxxxay''" by code_simp
  have i2: "\<not> str_includes ''yestxxxay'' ''yesterday''" by code_simp
  have len: "5 \<le> length (normalize_str (title ?s))" by (simp add: nt)
  have near: "editDistance (normalize_str ''Yesterdy!'') (normalize_str (title ?s))
                \<le> max 1 (length (normalize_str (title ?s)) div 4)"
    by (simp add: nt g1 d1)
  have far: "editDistance (normalize_str ''yestxxxay'') (normalize_str (title ?s))
            = max 1 (length (normalize_str (title ?s)) div 4) + 1
          \<and> (\<forall>p \<in> set (titleParts ?s). 2 \<le> length p \<longrightarrow>
                max 1 (length p div 4) < editDistance (normalize_str ''yestxxxay'') p)
          \<and> max 1 (length (normalize_str (artist ?s)) div 4)
              < editDistance (normalize_str ''yestxxxay'') (normalize_str (artist ?s))
          \<and> \<not> (str_includes (normalize_str (title ?s)) (normalize_str ''yestxxxay'')
                \<and> 3 \<le> length (normalize_str ''yestxxxay''))
          \<and> \<not> str_includes (normalize_str ''yestxxxay'') (normalize_str (title ?s))"
    by (simp add: nt na parts g2 d2 d3 i1 i2)
  show ?thesis
    using checkGuess_threshold [OF len, of "''Yesterdy!''"]
      checkGuess_threshold [OF len, of "''yestxxxay''"] near far
    by blast
qed

text \<open>
  C2 as stated fails: \<open>yester\<close> is three edits from \<open>yesterday\<close>, one more than the
  threshold 2 of a nine-character title, and is accepted all the same (it is a
  substring of the title).
\<close>

theorem checkGuess_threshold_counterexample:
  "5 \<le> length (normalize_str (title (exSong ''s1'' ''Yesterday'' ''The Beatles'')))
   \<and> editDistance (normalize_str ''yester'')
        (normalize_str (title (exSong ''s1'' ''Yesterday'' ''The Beatles'')))
      = max 1 (length (normalize_str (title (exSong ''s1'' ''Yesterday'' ''The Beatles''))) div 4) + 1
   \<and> checkGuess ''yester'' (exSong ''s1'' ''Yesterday'' ''The Beatles'')"
proof -
  let ?s = "exSong ''s1'' ''Yesterday'' ''The Beatles''"
  have nt: "normalize_str (title ?s) = ''yesterday''" by code_simp
  have g: "normalize_str ''yester'' = ''yester''" by code_simp
  have d: "editDistance ''yester'' ''yesterday'' = 3"
    unfolding levenshteinDistance_eq [symmetric] by code_simp
  have c: "checkGuess ''yester'' ?s" by code_simp
  show ?thesis by (simp add: nt g d c)
qed

text \<open>
  C10. The matcher accepts the empty guess for every song whose normalized artist, or
  whose normalized title, is a single character: the distance from the empty string is
  1 and the threshold is never below 1.
\<close>

theorem empty_guess_accepted:
  "length (normalize_str (artist s)) = 1 \<or> length (normalize_str (title s)) = 1
     \<Longrightarrow> checkGuess [] s"
  by (auto simp: checkGuess_iff Let_def normalize_str_empty editDistance_empty)

theorem empty_guess_accepted_witness:
  "length (normalize_str (artist (exSong ''s1'' ''Yellow'' ''X''))) = 1
   \<and> checkGuess [] (exSong ''s1'' ''Yellow'' ''X'')"
proof -
  have h: "length (normalize_str (artist (exSong ''s1'' ''Yellow'' ''X''))) = 1"
    by code_simp
  then show ?thesis
    using empty_guess_accepted [of "exSong ''s1'' ''Yellow'' ''X''"] by simp
qed

text \<open>
  C9. \<open>canStartGame\<close> says yes exactly when the lobby has a player, three songs or more,
  and no player who is neither host nor ready.
\<close>

theorem canStartGame_iff:
  "can (canStartGame l) \<longleftrightarrow>
     1 \<le> length (players l) \<and> 3 \<le> length (songs l) \<and>
     (\<forall>p \<in> set (map snd (players l)). \<not> isHost p \<longrightarrow> isReady p)"
  by (cases "players l") (auto simp: canStartGame_def Let_def filter_empty_conv)

theorem canStartGame_iff_witness:
  "\<not> can (canStartGame (exLobby [(''p1'', exPlayer ''p1'' ''s1'' True True)]
        [exSong ''a'' ''A'' ''x'', exSong ''b'' ''B'' ''y'']))
   \<and> can (canStartGame (exLobby [(''p1'', exPlayer ''p1'' ''s1'' True False),
                                (''p2'', exPlayer ''p2'' ''s2'' False True)]
        [exSong ''a'' ''A'' ''x'', exSong ''b'' ''B'' ''y'', exSong ''c'' ''C'' ''z'']))
   \<and> \<not> can (canStartGame (exLobby [(''p1'', exPlayer ''p1'' ''s1'' True True),
                                  (''p2'', exPlayer ''p2'' ''s2'' False False)]
        [exSong ''a'' ''A'' ''x'', exSong ''b'' ''B'' ''y'', exSong ''c'' ''C'' ''z'']))"
  using canStartGame_iff [of "exLobby [(''p1'', exPlayer ''p1'' ''s1'' True True)]
        [exSong ''a'' ''A'' ''x'', exSong ''b'' ''B'' ''y'']"]
    canStartGame_iff [of "exLobby [(''p1'', exPlayer ''p1'' ''s1'' True False),
                                (''p2'', exPlayer ''p2'' ''s2'' False True)]
        [exSong ''a'' ''A'' ''x'', exSong ''b'' ''B'' ''y'', exSong ''c'' ''C'' ''z'']"]
    canStartGame_iff [of "exLobby [(''p1'', exPlayer ''p1'' ''s1'' True True),
                                  (''p2'', exPlayer ''p2'' ''s2'' False False)]
        [exSong ''a'' ''A'' ''x'', exSong ''b'' ''B'' ''y'', exSong ''c'' ''C'' ''z'']"]
  by (simp add: exLobby_def exPlayer_def)

subsection \<open>joinLobby\<close>

text \<open>
  C6. \<open>joinLobby\<close> looks the upper-cased code up, so codes that differ only in case
  behave alike. It raises \<open>Lobby not found\<close> when no lobby has that key, else
  \<open>Game already in progress\<close> when the lobby is not waiting, else \<open>Lobby is full\<close> when
  it has \<open>maxPlayers\<close> players or more; otherwise it adds a player who is neither host
  nor ready and sets both index entries of the socket.
\<close>

theorem joinLobby_checks:
  "(map_of (lobbies m) (toUpperCase c) = None \<longrightarrow>
      joinLobby m c sid nm av pid = Inl (Error ''Lobby not found''))
   \<and> (\<forall>l. map_of (lobbies m) (toUpperCase c) = Some l \<and> state l \<noteq> Waiting \<longrightarrow>
      joinLobby m c sid nm av pid = Inl (Error ''Game already in progress''))
   \<and> (\<forall>l. map_of (lobbies m) (toUpperCase c) = Some l \<and> state l = Waiting
          \<and> maxPlayers (settings l) \<le> rat_of_nat (length (players l)) \<longrightarrow>
      joinLobby m c sid nm av pid = Inl (Error ''Lobby is full''))
   \<and> (\<forall>l. map_of (lobbies m) (toUpperCase c) = Some l \<and> state l = Waiting
          \<and> rat_of_nat (length (players l)) < maxPlayers (settings l) \<longrightarrow>
      (\<exists>l' m' p. joinLobby m c sid nm av pid = Inr ((l', pid), m')
         \<and> map_of (lobbies m') (toUpperCase c) = Some l'
         \<and> map_of (players l') pid = Some p
         \<and> \<not> isHost p \<and> \<not> isReady p \<and> player_id p = pid \<and> socketId p = sid
         \<and> (\<forall>k. k \<noteq> pid \<longrightarrow> map_of (players l') k = map_of (players l) k)
         \<and> map_of (playerToLobby m') sid = Some (toUpperCase c)
         \<and> map_of (playerIds m') sid = Some pid))
   \<and> (\<forall>c'. toUpperCase c' = toUpperCase c \<longrightarrow>
         joinLobby m c' sid nm av pid = joinLobby m c sid nm av pid)"
proof (intro conjI allI impI)
  fix c'
  assume same: "toUpperCase c' = toUpperCase c"
  show "joinLobby m c' sid nm av pid = joinLobby m c sid nm av pid"
    unfolding joinLobby_def same by (rule refl)
qed (auto simp: joinLobby_def Let_def update_conv')

theorem joinLobby_checks_witness:
  "joinLobby exManager ''zzzzz'' ''s2'' ''Bob'' exAvatar ''p2'' = Inl (Error ''Lobby not found'')
   \<and> joinLobby exManager ''abcde'' ''s2'' ''Bob'' exAvatar ''p2''
     = joinLobby exManager ''ABCDE'' ''s2'' ''Bob'' exAvatar ''p2''
   \<and> (\<exists>l' m'. joinLobby exManager ''abcde'' ''s2'' ''Bob'' exAvatar ''p2'' = Inr ((l', ''p2''), m')
        \<and> map_of (playerIds m') ''s2'' = Some ''p2'')"
proof -
  have up: "toUpperCase ''zzzzz'' = ''ZZZZZ''" "toUpperCase ''abcde'' = ''ABCDE''"
    "toUpperCase ''ABCDE'' = ''ABCDE''"
    by code_simp+
  have none: "map_of (lobbies exManager) (toUpperCase ''zzzzz'') = None"
    by (simp add: up exManager_def)
  have some: "map_of (lobbies exManager) (toUpperCase ''abcde'')
                = Some (exLobby [(''p1'', exPlayer ''p1'' ''s1'' True True)] [])
              \<and> state (exLobby [(''p1'', exPlayer ''p1'' ''s1'' True True)] []) = Waiting
              \<and> rat_of_nat (length (players (exLobby [(''p1'', exPlayer ''p1'' ''s1'' True True)] [])))
                  < maxPlayers (settings (exLobby [(''p1'', exPlayer ''p1'' ''s1'' True True)] []))"
    by (simp add: up exManager_def exLobby_def DEFAULT_SETTINGS_def)
  have same: "toUpperCase ''abcde'' = toUpperCase ''ABCDE''" by (simp add: up)
  note z = joinLobby_checks [of exManager "''zzzzz''" "''s2''" "''Bob''" exAvatar "''p2''"]
  note a = joinLobby_checks [of exManager "''abcde''" "''s2''" "''Bob''" exAvatar "''p2''"]
  note b = joinLobby_checks [of exManager "''ABCDE''" "''s2''" "''Bob''" exAvatar "''p2''"]
  have t1: "joinLobby exManager ''zzzzz'' ''s2'' ''Bob'' exAvatar ''p2''
              = Inl (Error ''Lobby not found'')"
    using z [THEN conjunct1] none by simp
  have t2: "joinLobby exManager ''abcde'' ''s2'' ''Bob'' exAvatar ''p2''
              = joinLobby exManager ''ABCDE'' ''s2'' ''Bob'' exAvatar ''p2''"
    using b [THEN conjunct2, THEN conjunct2, THEN conjunct2, THEN conjunct2, rule_format, OF same] .
  have t3: "\<exists>l' m'. joinLobby exManager ''abcde'' ''s2'' ''Bob'' exAvatar ''p2''
                = Inr ((l', ''p2''), m') \<and> map_of (playerIds m') ''s2'' = Some ''p2''"
    using a [THEN conjunct2, THEN conjunct2, THEN conjunct2, THEN conjunct1, rule_format, OF some]
    by blast
  show ?thesis using t1 t2 t3 by simp
qed

subsection \<open>Rounding to double\<close>

lemma binade_bounds:
  assumes "q \<noteq> 0"
  shows "2 powi (binade q) \<le> \<bar>q\<bar> \<and> \<bar>q\<bar> < 2 powi (binade q + 1)"
proof -
  obtain n d where nd: "quotient_of \<bar>q\<bar> = (n, d)" by (cases "quotient_of \<bar>q\<bar>")
  have d: "0 < d" using nd by (rule quotient_of_denom_pos)
  have q: "\<bar>q\<bar> = of_int n / of_int d" using nd by (rule quotient_of_div)
  have "0 < \<bar>q\<bar>" using assms by simp
  then have n: "0 < n" using d unfolding q by (simp add: zero_less_divide_iff)
  define fn where "fn = floorlog 2 (nat n)"
  define fd where "fd = floorlog 2 (nat d)"
  define k where "k = int fn - int fd"
  have bn: "2 ^ (fn - 1) \<le> nat n \<and> nat n < 2 ^ fn"
    unfolding fn_def using n by (intro floorlog_bounds) simp_all
  have bd: "2 ^ (fd - 1) \<le> nat d \<and> nat d < 2 ^ fd"
    unfolding fd_def using d by (intro floorlog_bounds) simp_all
  have fn1: "1 \<le> fn" using bn n by (cases "fn = 0") auto
  have fd1: "1 \<le> fd" using bd d by (cases "fd = 0") auto
  have n_lo: "(2::rat) ^ (fn - 1) \<le> of_int n"
  proof -
    have "rat_of_nat (2 ^ (fn - 1)) \<le> rat_of_nat (nat n)" using bn by (simp only: of_nat_le_iff)
    then show ?thesis using n by simp
  qed
  have n_hi: "of_int n < (2::rat) ^ fn"
  proof -
    have "rat_of_nat (nat n) < rat_of_nat (2 ^ fn)" using bn by (simp only: of_nat_less_iff)
    then show ?thesis using n by simp
  qed
  have d_lo: "(2::rat) ^ (fd - 1) \<le> of_int d"
  proof -
    have "rat_of_nat (2 ^ (fd - 1)) \<le> rat_of_nat (nat d)" using bd by (simp only: of_nat_le_iff)
    then show ?thesis using d by simp
  qed
  have d_hi: "of_int d < (2::rat) ^ fd"
  proof -
    have "rat_of_nat (nat d) < rat_of_nat (2 ^ fd)" using bd by (simp only: of_nat_less_iff)
    then show ?thesis using d by simp
  qed
  have dpos: "0 < rat_of_int d" using d by simp
  have upper: "\<bar>q\<bar> < 2 powi (k + 1)"
  proof -
    have "of_int n / of_int d < (2::rat) ^ fn / 2 ^ (fd - 1)"
      using n_hi d_lo n by (intro frac_less) simp_all
    moreover have "(2::rat) ^ fn / 2 ^ (fd - 1) = 2 powi (int fn - int (fd - 1))"
      by (simp add: power_int_diff)
    moreover have "int fn - int (fd - 1) = k + 1" using fd1 by (simp add: k_def)
    ultimately show ?thesis by (simp add: q)
  qed
  have lower: "2 powi (k - 1) < \<bar>q\<bar>"
  proof -
    have "(2::rat) ^ (fn - 1) / 2 ^ fd < of_int n / of_int d"
      using n_lo d_hi dpos by (intro frac_less2) simp_all
    moreover have "(2::rat) ^ (fn - 1) / 2 ^ fd = 2 powi (int (fn - 1) - int fd)"
      by (simp add: power_int_diff)
    moreover have "int (fn - 1) - int fd = k - 1" using fn1 by (simp add: k_def)
    ultimately show ?thesis by (simp add: q)
  qed
  have b: "binade q = (if 2 powi k \<le> \<bar>q\<bar> then k else k - 1)"
    by (simp add: binade_def nd k_def fn_def fd_def Let_def)
  show ?thesis
  proof (cases "2 powi k \<le> \<bar>q\<bar>")
    case True
    then show ?thesis using upper b by simp
  next
    case False
    then show ?thesis using lower b by simp
  qed
qed

lemma binade_unique:
  assumes "2 powi e \<le> \<bar>q\<bar>" and "\<bar>q\<bar> < 2 powi (e + 1)"
  shows "binade q = e"
proof -
  have "0 < (2::rat) powi e" by simp
  then have "0 < \<bar>q\<bar>" using assms(1) by (rule less_le_trans)
  then have "q \<noteq> 0" by simp
  from binade_bounds [OF this] have b: "2 powi (binade q) \<le> \<bar>q\<bar>" "\<bar>q\<bar> < 2 powi (binade q + 1)"
    by simp_all
  have "(2::rat) powi e < 2 powi (binade q + 1)" using assms(1) b(2) by simp
  then have 1: "e < binade q + 1"
    by (metis linorder_not_less one_le_numeral power_int_increasing)
  have "(2::rat) powi (binade q) < 2 powi (e + 1)" using assms(2) b(1) by simp
  then have 2: "binade q < e + 1"
    by (metis linorder_not_less one_le_numeral power_int_increasing)
  from 1 2 show ?thesis by simp
qed

lemma roundHalfEven_near: "\<bar>rat_of_int (roundHalfEven x) - x\<bar> \<le> 1 / 2"
proof -
  have "rat_of_int \<lfloor>x\<rfloor> \<le> x" and "x < rat_of_int \<lfloor>x\<rfloor> + 1" by linarith+
  then show ?thesis by (auto simp: roundHalfEven_def Let_def)
qed

lemma roundHalfEven_floor:
  assumes "of_int f \<le> x" and "x < of_int f + 1"
  shows "roundHalfEven x =
     (if x - of_int f < 1 / 2 then f else if 1 / 2 < x - of_int f then f + 1
      else if even f then f else f + 1)"
proof -
  have "\<lfloor>x\<rfloor> = f" using assms by (rule floor_unique)
  then show ?thesis by (simp add: roundHalfEven_def Let_def)
qed

lemma roundHalfEven_of_int: "roundHalfEven (of_int n) = n"
  by (simp add: roundHalfEven_def)

text \<open>
  How a rounding is evaluated: name the binade \<open>e\<close> of the exact value (in the normal
  range) and the integer \<open>n\<close> that its multiple of the unit in the last place rounds to.
\<close>

lemma roundNum_eval:
  assumes "2 powi e \<le> \<bar>q\<bar>" and "\<bar>q\<bar> < 2 powi (e + 1)" and "- 1022 \<le> e" and "e < 1023"
    and "roundHalfEven (q / 2 powi (e - 52)) = n"
  shows "roundNum q = Fin (of_int n * 2 powi (e - 52))"
proof -
  have b: "binade q = e" using assms(1,2) by (rule binade_unique)
  have "0 < (2::rat) powi e" by simp
  then have "0 < \<bar>q\<bar>" using assms(1) by (rule less_le_trans)
  then have q0: "q \<noteq> 0" by simp
  have ue: "max (binade q - 52) (- 1074) = e - 52" using b assms(3) by simp
  have r: "roundHalfEven (q / 2 powi (e - 52)) = n" by (rule assms(5))
  have upos: "0 < (2::rat) powi (e - 52)" by simp
  have qu: "2 powi 52 \<le> \<bar>q\<bar> / 2 powi (e - 52) \<and> \<bar>q\<bar> / 2 powi (e - 52) < 2 powi 53"
  proof -
    have lo: "(2::rat) powi e = 2 powi 52 * 2 powi (e - 52)"
      by (simp add: power_int_diff)
    have hi: "(2::rat) powi (e + 1) = 2 powi 53 * 2 powi (e - 52)"
      by (simp add: power_int_diff power_int_add)
    show ?thesis
      using assms(1,2) upos unfolding lo hi
      by (simp add: pos_le_divide_eq pos_divide_less_eq del: power_int_numeral)
  qed
  have near: "\<bar>rat_of_int n - q / 2 powi (e - 52)\<bar> \<le> 1 / 2"
    using roundHalfEven_near [of "q / 2 powi (e - 52)"] unfolding r .
  have absq: "\<bar>q / 2 powi (e - 52)\<bar> = \<bar>q\<bar> / 2 powi (e - 52)" by simp
  have nabs: "rat_of_int \<bar>n\<bar> - 1 / 2 \<le> \<bar>q\<bar> / 2 powi (e - 52)
      \<and> \<bar>q\<bar> / 2 powi (e - 52) \<le> rat_of_int \<bar>n\<bar> + 1 / 2"
    using near unfolding absq [symmetric] of_int_abs by linarith
  have n_lo: "2 ^ 52 \<le> \<bar>n\<bar>"
  proof -
    have "(2::rat) powi 52 \<le> rat_of_int \<bar>n\<bar> + 1 / 2" using qu nabs by linarith
    then have "rat_of_int (2 ^ 52) < rat_of_int \<bar>n\<bar> + 1" by simp
    then have "rat_of_int (2 ^ 52) < rat_of_int (\<bar>n\<bar> + 1)" by simp
    then have "(2::int) ^ 52 < \<bar>n\<bar> + 1" by (simp only: of_int_less_iff)
    then show ?thesis by simp
  qed
  have n_hi: "\<bar>n\<bar> \<le> 2 ^ 53"
  proof -
    have "rat_of_int \<bar>n\<bar> - 1 / 2 < 2 powi 53" using qu nabs by linarith
    then have "rat_of_int \<bar>n\<bar> < rat_of_int (2 ^ 53) + 1" by simp
    then have "rat_of_int \<bar>n\<bar> < rat_of_int (2 ^ 53 + 1)" by simp
    then have "\<bar>n\<bar> < (2::int) ^ 53 + 1" by (simp only: of_int_less_iff)
    then show ?thesis by simp
  qed
  have n0: "n \<noteq> 0" using n_lo by auto
  have small: "\<bar>rat_of_int n * 2 powi (e - 52)\<bar> < 2 powi 1024"
  proof -
    have "\<bar>rat_of_int n * 2 powi (e - 52)\<bar> = rat_of_int \<bar>n\<bar> * 2 powi (e - 52)"
      by (simp add: abs_mult)
    also have "\<dots> \<le> rat_of_int (2 ^ 53) * 2 powi (e - 52)"
    proof (rule mult_right_mono)
      show "rat_of_int \<bar>n\<bar> \<le> rat_of_int (2 ^ 53)" using n_hi by (simp only: of_int_le_iff)
      show "0 \<le> (2::rat) powi (e - 52)" by simp
    qed
    also have "\<dots> = 2 powi (e + 1)"
      by (simp add: power_int_diff power_int_add)
    also have "\<dots> \<le> 2 powi 1023"
      using assms(4) by (intro power_int_increasing) simp_all
    also have "\<dots> < 2 powi 1024"
      by (intro power_int_strict_increasing) simp_all
    finally show ?thesis .
  qed
  have nz: "rat_of_int n * 2 powi (e - 52) \<noteq> 0" using n0 by simp
  show ?thesis
    unfolding roundNum_def Let_def ue r using q0 small nz by (simp del: power_int_numeral)
qed

lemma roundNum_of_int:
  assumes "n \<noteq> 0" and "\<bar>n\<bar> < 2 ^ 53"
  shows "roundNum (of_int n) = Fin (of_int n)"
proof -
  define e where "e = binade (rat_of_int n)"
  have q0: "rat_of_int n \<noteq> 0" using assms(1) by simp
  from binade_bounds [OF q0] have b: "2 powi e \<le> \<bar>rat_of_int n\<bar>" "\<bar>rat_of_int n\<bar> < 2 powi (e + 1)"
    by (simp_all add: e_def)
  have "(2::rat) powi 0 < 2 powi (e + 1)"
  proof -
    have "1 \<le> \<bar>n\<bar>" using assms(1) by simp
    then have "1 \<le> rat_of_int \<bar>n\<bar>" by (simp only: of_int_1_le_iff)
    then show ?thesis using b(2) by simp
  qed
  then have e0: "0 \<le> e"
    by (metis add.commute add_0 linorder_not_less one_le_numeral power_int_increasing zle_add1_eq_le
        zless_add1_eq order_less_le)
  have "rat_of_int \<bar>n\<bar> < rat_of_int (2 ^ 53)" using assms(2) by (simp only: of_int_less_iff)
  then have "(2::rat) powi e < 2 powi 53" using b(1) by simp
  then have e52: "e \<le> 52"
    by (metis linorder_not_less one_le_numeral power_int_increasing zle_add1_eq_le
        add.commute one_add_one numeral_plus_one add_le_cancel_left semiring_norm(5) not_le)
  define j where "j = nat (52 - e)"
  have u: "(2::rat) powi (e - 52) = 1 / 2 ^ j"
  proof -
    have "e - 52 = - int j" using e52 by (simp add: j_def)
    then show ?thesis by (simp add: power_int_minus_divide)
  qed
  have quot: "rat_of_int n / 2 powi (e - 52) = rat_of_int (n * 2 ^ j)" by (simp add: u)
  have r: "roundHalfEven (rat_of_int n / 2 powi (e - 52)) = n * 2 ^ j"
    unfolding quot by (rule roundHalfEven_of_int)
  have value_n: "rat_of_int (n * 2 ^ j) * 2 powi (e - 52) = rat_of_int n" by (simp add: u)
  have ue: "max (binade (rat_of_int n) - 52) (- 1074) = e - 52" using e0 by (simp add: e_def)
  have small: "\<bar>rat_of_int n\<bar> < 2 powi 1024"
  proof -
    have "\<bar>rat_of_int n\<bar> < rat_of_int (2 ^ 53)"
      using assms(2) by (simp only: of_int_less_iff flip: of_int_abs)
    also have "\<dots> = 2 powi 53" by simp
    also have "\<dots> \<le> 2 powi 1024" by (intro power_int_increasing) simp_all
    finally show ?thesis .
  qed
  show ?thesis
    unfolding roundNum_def Let_def ue r value_n using q0 small by (simp del: power_int_numeral)
qed

text \<open>Sums and products of small integers are exact.\<close>

lemma jsadd_int:
  assumes "\<bar>a + b\<bar> < 2 ^ 53"
  shows "jsadd (Fin (of_int a)) (Fin (of_int b)) = Fin (of_int (a + b))"
proof (cases "a + b = 0")
  case True
  then have "rat_of_int a + rat_of_int b = 0" by (simp flip: of_int_add)
  then show ?thesis using True by (simp add: jsadd_def)
next
  case False
  then have "rat_of_int a + rat_of_int b \<noteq> 0" by (simp flip: of_int_add)
  then show ?thesis
    using roundNum_of_int [OF False assms] by (simp add: jsadd_def)
qed

lemma jsmul_int:
  assumes "0 \<le> a" and "0 \<le> b" and "a * b < 2 ^ 53"
  shows "jsmul (Fin (of_int a)) (Fin (of_int b)) = Fin (of_int (a * b))"
proof (cases "a * b = 0")
  case True
  then show ?thesis using assms by (auto simp: jsmul_def signedZero_def)
next
  case False
  have "\<bar>a * b\<bar> < 2 ^ 53" using assms by simp
  from roundNum_of_int [OF False this] False show ?thesis by (simp add: jsmul_def)
qed

lemma jssub_int:
  assumes "\<bar>a - b\<bar> < 2 ^ 53"
  shows "jssub (Fin (of_int a)) (Fin (of_int b)) = Fin (of_int (a - b))"
proof (cases "b = 0")
  case True
  show ?thesis
  proof (cases "a = 0")
    case True
    then show ?thesis using \<open>b = 0\<close> by (simp add: jssub_def jsadd_def)
  next
    case False
    then show ?thesis
      using \<open>b = 0\<close> roundNum_of_int [OF False] assms by (simp add: jssub_def jsadd_def)
  qed
next
  case False
  have "\<bar>a + (- b)\<bar> < 2 ^ 53" using assms by simp
  from jsadd_int [OF this] False show ?thesis by (simp add: jssub_def)
qed

text \<open>
  The speed bonus 1.98 seconds into a round of 30 seconds, step by step:
  \<open>1980 / 1000\<close>, \<open>/ 30\<close>, \<open>1 -\<close>, \<open>* 500\<close>. The last product is just below 467.
\<close>

lemma elapsed_1980: "jsdiv (Fin 1980) (Fin 1000) = Fin (4458563631096791 / 2251799813685248)"
proof -
  have "roundHalfEven ((1980 / 1000) / 2 powi (0 - 52)) = 8917127262193582"
    using roundHalfEven_floor [of 8917127262193582 "(1980 / 1000) / 2 powi (0 - 52)"] by simp
  from roundNum_eval [of 0 "1980 / 1000", OF _ _ _ _ this]
  show ?thesis by (simp add: jsdiv_def)
qed

lemma quotient_1980:
  "jsdiv (Fin (4458563631096791 / 2251799813685248)) (Fin 30)
     = Fin (1188950301625811 / 18014398509481984)"
proof -
  have "roundHalfEven ((4458563631096791 / 2251799813685248 / 30) / 2 powi (- 4 - 52))
          = 4755801206503244"
    using roundHalfEven_floor [of 4755801206503243 "(4458563631096791 / 2251799813685248 / 30) / 2 powi (- 4 - 52)"] by simp
  from roundNum_eval [of "- 4" "4458563631096791 / 2251799813685248 / 30", OF _ _ _ _ this]
  show ?thesis by (simp add: jsdiv_def)
qed

lemma remaining_1980:
  "jssub (Fin 1) (Fin (1188950301625811 / 18014398509481984))
     = Fin (4206362051964043 / 4503599627370496)"
proof -
  have "roundHalfEven ((1 - 1188950301625811 / 18014398509481984) / 2 powi (- 1 - 52))
          = 8412724103928086"
    using roundHalfEven_floor [of 8412724103928086 "(1 - 1188950301625811 / 18014398509481984) / 2 powi (- 1 - 52)"] by simp
  from roundNum_eval [of "- 1" "1 - 1188950301625811 / 18014398509481984", OF _ _ _ _ this]
  show ?thesis by (simp add: jssub_def jsadd_def)
qed

lemma product_1980:
  "jsmul (Fin (4206362051964043 / 4503599627370496)) (Fin 500)
     = Fin (8215550882742271 / 17592186044416)"
proof -
  have "roundHalfEven ((4206362051964043 / 4503599627370496 * 500) / 2 powi (8 - 52))
          = 8215550882742271"
    using roundHalfEven_floor [of 8215550882742271 "(4206362051964043 / 4503599627370496 * 500) / 2 powi (8 - 52)"] by simp
  from roundNum_eval [of 8 "4206362051964043 / 4503599627370496 * 500", OF _ _ _ _ this]
  show ?thesis by (simp add: jsmul_def)
qed

lemma bonus_1980:
  "mathMax0 (mathFloor (jsmul (jssub (Fin 1) (jsdiv (jsdiv (Fin 1980) (Fin 1000)) (Fin 30)))
      (Fin 500))) = Fin 466"
proof -
  have "\<lfloor>8215550882742271 / 17592186044416 :: rat\<rfloor> = 466"
    by (rule floor_unique) simp_all
  then show ?thesis by (simp add: elapsed_1980 quotient_1980 remaining_1980 product_1980)
qed

subsection \<open>How far a rounded result is from the exact one\<close>

text \<open>
  A rounding that does not overflow moves a value by at most half a unit in the last
  place: by at most the fraction \<open>2^-53\<close> of the value, or by \<open>2^-1075\<close> for a subnormal.
\<close>

lemma powi_half: "(2::rat) powi k / 2 = 2 powi (k - 1)"
  by (simp add: power_int_diff)

lemma powi_double: "(2::rat) powi (k + 1) = 2 powi k + 2 powi k"
  by (simp add: power_int_add)

lemma valueOf_signedZero: "valueOf (signedZero b) = Some 0"
  by (simp add: signedZero_def)

lemma roundNum_error:
  assumes "\<bar>q\<bar> < 2 powi 1023"
  shows "\<exists>r. valueOf (roundNum q) = Some r \<and> \<bar>r - q\<bar> \<le> \<bar>q\<bar> / 2 ^ 53 + 2 powi (- 1075)"
proof (cases "q = 0")
  case True
  then show ?thesis by (simp add: roundNum_def)
next
  case False
  define e where "e = binade q"
  define u :: rat where "u = 2 powi (max (e - 52) (- 1074))"
  define n where "n = roundHalfEven (q / u)"
  define r where "r = of_int n * u"
  have upos: "0 < u" by (simp add: u_def)
  have b: "2 powi e \<le> \<bar>q\<bar>" using binade_bounds [OF False] by (simp add: e_def)
  have near: "\<bar>rat_of_int n - q / u\<bar> \<le> 1 / 2"
    unfolding n_def by (rule roundHalfEven_near)
  have "\<bar>r - q\<bar> = \<bar>rat_of_int n - q / u\<bar> * u"
  proof -
    have "r - q = (rat_of_int n - q / u) * u" using upos by (simp add: r_def field_simps)
    then show ?thesis using upos by (simp add: abs_mult)
  qed
  also have "\<dots> \<le> 1 / 2 * u" using near upos by (intro mult_right_mono) simp_all
  finally have half: "\<bar>r - q\<bar> \<le> u / 2" by simp
  have ulp: "u / 2 \<le> \<bar>q\<bar> / 2 ^ 53 + 2 powi (- 1075)"
  proof (cases "- 1074 \<le> e - 52")
    case True
    then have "u = 2 powi (e - 52)" by (simp add: u_def)
    also have "\<dots> = 2 powi e / 2 ^ 52" by (simp add: power_int_diff)
    finally have "u / 2 = 2 powi e / 2 ^ 53" by simp
    also have "\<dots> \<le> \<bar>q\<bar> / 2 ^ 53" using b by (intro divide_right_mono) simp_all
    also have "\<dots> \<le> \<bar>q\<bar> / 2 ^ 53 + 2 powi (- 1075)" by simp
    finally show ?thesis .
  next
    case False
    then have "u = 2 powi (- 1074)" by (simp add: u_def)
    then have "u / 2 = 2 powi (- 1075)" using powi_half [of "- 1074"] by simp
    moreover have "0 \<le> \<bar>q\<bar> / 2 ^ 53" by simp
    ultimately show ?thesis by linarith
  qed
  have err: "\<bar>r - q\<bar> \<le> \<bar>q\<bar> / 2 ^ 53 + 2 powi (- 1075)" using half ulp by linarith
  have tiny: "(2::rat) powi (- 1075) \<le> 2 powi 1022"
    by (intro power_int_increasing) simp_all
  have frac: "\<bar>q\<bar> / 2 ^ 53 \<le> \<bar>q\<bar> / 2"
    by (intro divide_left_mono) simp_all
  have q2: "\<bar>q\<bar> / 2 < 2 powi 1022"
  proof -
    have "\<bar>q\<bar> / 2 < 2 powi 1023 / 2" using assms by (intro divide_strict_right_mono) simp_all
    also have "\<dots> = 2 powi 1022" using powi_half [of 1023] by simp
    finally show ?thesis .
  qed
  have two: "(2::rat) powi 1024 = 2 powi 1023 + 2 powi 1022 + 2 powi 1022"
    using powi_double [of 1023] powi_double [of 1022] by simp
  have small: "\<bar>r\<bar> < 2 powi 1024"
  proof -
    have "\<bar>r\<bar> \<le> \<bar>q\<bar> + \<bar>r - q\<bar>" by linarith
    then have "\<bar>r\<bar> < 2 powi 1023 + 2 powi 1022 + 2 powi 1022"
      using err frac q2 tiny assms by linarith
    then show ?thesis by (simp only: two)
  qed
  have rn: "roundNum q = (if r = 0 then signedZero (q < 0) else Fin r)"
    using False small
    by (simp add: roundNum_def Let_def e_def [symmetric] u_def [symmetric] n_def [symmetric]
        r_def [symmetric] del: power_int_numeral power_int_minus)
  show ?thesis using err by (cases "r = 0") (simp_all add: rn valueOf_signedZero)
qed

text \<open>The same for the four operations, on the values of their operands.\<close>

lemma jsdiv_error:
  assumes "valueOf a = Some x" and "valueOf b = Some y" and "y \<noteq> 0"
    and "\<bar>x / y\<bar> < 2 powi 1023"
  shows "\<exists>r. valueOf (jsdiv a b) = Some r \<and> \<bar>r - x / y\<bar> \<le> \<bar>x / y\<bar> / 2 ^ 53 + 2 powi (- 1075)"
proof -
  have nn: "a \<noteq> NaN" "b \<noteq> NaN" using assms(1,2) by auto
  show ?thesis
  proof (cases "x = 0")
    case True
    then show ?thesis using assms nn by (simp add: jsdiv_def valueOf_signedZero)
  next
    case False
    then have "jsdiv a b = roundNum (x / y)" using assms nn by (simp add: jsdiv_def)
    then show ?thesis using roundNum_error [OF assms(4)] by simp
  qed
qed

lemma jsmul_error:
  assumes "valueOf a = Some x" and "valueOf b = Some y" and "\<bar>x * y\<bar> < 2 powi 1023"
  shows "\<exists>r. valueOf (jsmul a b) = Some r \<and> \<bar>r - x * y\<bar> \<le> \<bar>x * y\<bar> / 2 ^ 53 + 2 powi (- 1075)"
proof -
  have nn: "a \<noteq> NaN" "b \<noteq> NaN" using assms(1,2) by auto
  show ?thesis
  proof (cases "x = 0 \<or> y = 0")
    case True
    then show ?thesis using assms nn by (auto simp: jsmul_def valueOf_signedZero)
  next
    case False
    then have "jsmul a b = roundNum (x * y)" using assms nn by (simp add: jsmul_def)
    then show ?thesis using roundNum_error [OF assms(3)] by simp
  qed
qed

lemma valueOf_jsneg: "valueOf a = Some x \<Longrightarrow> valueOf (jsneg a) = Some (- x)"
  by (cases a) auto

lemma jssub_error:
  assumes "valueOf a = Some x" and "valueOf b = Some y" and "\<bar>x - y\<bar> < 2 powi 1023"
  shows "\<exists>r. valueOf (jssub a b) = Some r \<and> \<bar>r - (x - y)\<bar> \<le> \<bar>x - y\<bar> / 2 ^ 53 + 2 powi (- 1075)"
proof -
  have nb: "valueOf (jsneg b) = Some (- y)" using assms(2) by (rule valueOf_jsneg)
  have nn: "a \<noteq> NaN" "jsneg b \<noteq> NaN" using assms(1) nb by auto
  show ?thesis
  proof (cases "x - y = 0")
    case True
    then have "valueOf (jssub a b) = Some 0"
      using assms(1) nb nn by (simp add: jssub_def jsadd_def)
    then show ?thesis using True by simp
  next
    case False
    then have "jssub a b = roundNum (x - y)"
      using assms(1) nb nn by (simp add: jssub_def jsadd_def)
    then show ?thesis using roundNum_error [OF assms(3)] by simp
  qed
qed

lemma mathMax0_mathFloor:
  assumes "valueOf a = Some x"
  shows "mathMax0 (mathFloor a) = Fin (of_int (max 0 \<lfloor>x\<rfloor>))"
  using assms by (cases a) (auto simp: max_def)

text \<open>
  A value within \<open>1 / n\<close> of a fraction with denominator \<open>n\<close> has the floor of the
  fraction, or one less.
\<close>

lemma floor_near_fraction:
  assumes "0 < n" and "\<bar>z - of_int N / of_int n\<bar> < 1 / rat_of_int n"
  shows "\<lfloor>rat_of_int N / of_int n\<rfloor> - 1 \<le> \<lfloor>z\<rfloor> \<and> \<lfloor>z\<rfloor> \<le> \<lfloor>rat_of_int N / of_int n\<rfloor>"
proof -
  define q where "q = rat_of_int N / of_int n"
  define k where "k = \<lfloor>q\<rfloor>"
  have npos: "0 < rat_of_int n" using assms(1) by simp
  have n1: "1 \<le> rat_of_int n" using assms(1) by simp
  have inv: "1 / rat_of_int n \<le> 1" using n1 by simp
  have lo: "of_int k \<le> q" and hi: "q < of_int k + 1" unfolding k_def by linarith+
  have "rat_of_int N < (of_int k + 1) * of_int n"
    using hi npos by (simp add: q_def pos_divide_less_eq)
  then have "rat_of_int N < rat_of_int ((k + 1) * n)" by simp
  then have "N < (k + 1) * n" by (simp only: of_int_less_iff)
  then have "N + 1 \<le> (k + 1) * n" by simp
  then have "rat_of_int (N + 1) \<le> rat_of_int ((k + 1) * n)" by (simp only: of_int_le_iff)
  then have "rat_of_int N + 1 \<le> (of_int k + 1) * of_int n" by simp
  then have "(rat_of_int N + 1) / of_int n \<le> of_int k + 1"
    using npos by (simp add: pos_divide_le_eq)
  then have step: "q + 1 / of_int n \<le> of_int k + 1"
    by (simp add: q_def add_divide_distrib)
  have z: "\<bar>z - q\<bar> < 1 / rat_of_int n" using assms(2) by (simp add: q_def)
  have "z < of_int (k + 1)" using z step by (simp; linarith)
  then have "\<lfloor>z\<rfloor> < k + 1" by (simp only: floor_less_iff)
  then have up: "\<lfloor>z\<rfloor> \<le> k" by simp
  have "of_int (k - 1) \<le> z" using z lo inv by (simp; linarith)
  then have down: "k - 1 \<le> \<lfloor>z\<rfloor>" by (simp only: le_floor_iff)
  show ?thesis using up down by (simp add: k_def q_def)
qed

text \<open>
  The four roundings of the speed bonus, for a round of \<open>T\<close> seconds (a whole number
  below \<open>2^30\<close>) and \<open>d\<close> elapsed milliseconds (below \<open>2^40\<close>): the product is within
  \<open>1 / (2 T)\<close> of its exact value \<open>500 - d / (2 T)\<close>.
\<close>

lemma rounded_bound:
  fixes v q eta M :: rat
  assumes "\<bar>v - q\<bar> \<le> \<bar>q\<bar> / 2 ^ 53 + eta" and "\<bar>q\<bar> \<le> M" and "eta \<le> 1"
  shows "\<bar>v\<bar> \<le> 2 * M + 1"
proof -
  define D where "D = \<bar>q\<bar> / 2 ^ 53"
  have "D \<le> \<bar>q\<bar> / 1" unfolding D_def by (intro divide_left_mono) simp_all
  then have 1: "D \<le> \<bar>q\<bar>" by simp
  have 2: "\<bar>v\<bar> \<le> \<bar>q\<bar> + \<bar>v - q\<bar>" by linarith
  have 3: "\<bar>v - q\<bar> \<le> D + eta" using assms(1) by (simp add: D_def)
  show ?thesis using 1 2 3 assms(2,3) by linarith
qed

lemma bonus_error:
  fixes a Tr te x y z eta :: rat
  assumes a: "0 \<le> a" "a < 2 ^ 31" and T: "1 \<le> Tr" "Tr < 2 ^ 30"
    and eta: "0 \<le> eta" "eta \<le> 1 / 2 ^ 60"
    and e1: "\<bar>te - a\<bar> \<le> \<bar>a\<bar> / 2 ^ 53 + eta"
    and e2: "\<bar>x - te / Tr\<bar> \<le> \<bar>te / Tr\<bar> / 2 ^ 53 + eta"
    and e3: "\<bar>y - (1 - x)\<bar> \<le> \<bar>1 - x\<bar> / 2 ^ 53 + eta"
    and e4: "\<bar>z - y * 500\<bar> \<le> \<bar>y * 500\<bar> / 2 ^ 53 + eta"
  shows "\<bar>z - (1 - a / Tr) * 500\<bar> < 1 / (2 * Tr)"
proof -
  define X where "X = a / Tr"
  define W where "W = te / Tr"
  define dW where "dW = \<bar>W - X\<bar>"
  define aW where "aW = \<bar>W\<bar>"
  define dx where "dx = \<bar>x - W\<bar>"
  define dX where "dX = \<bar>x - X\<bar>"
  define a1 where "a1 = \<bar>1 - x\<bar>"
  define dy where "dy = \<bar>y - (1 - x)\<bar>"
  define dY where "dY = \<bar>y - (1 - X)\<bar>"
  define ay where "ay = \<bar>y\<bar>"
  define dz where "dz = \<bar>z - y * 500\<bar>"
  define dZ where "dZ = \<bar>z - (1 - X) * 500\<bar>"
  have Tpos: "0 < Tr" using T(1) by simp
  have X0: "0 \<le> X" using a(1) Tpos by (simp add: X_def)
  have XT: "X * Tr = a" using Tpos by (simp add: X_def)
  have eta': "eta \<le> 1 / 1152921504606846976" using eta(2) by simp
  have w: "dW \<le> X / 9007199254740992 + eta"
  proof -
    have "\<bar>W - X\<bar> = \<bar>te - a\<bar> / Tr"
      using Tpos by (simp add: W_def X_def diff_divide_distrib [symmetric])
    also have "\<dots> \<le> (\<bar>a\<bar> / 2 ^ 53 + eta) / Tr"
      using e1 Tpos by (intro divide_right_mono) simp_all
    also have "\<dots> = X / 9007199254740992 + eta / Tr"
      using a(1) by (simp add: X_def add_divide_distrib)
    also have "\<dots> \<le> X / 9007199254740992 + eta"
    proof -
      have "eta / Tr \<le> eta / 1" using T(1) eta(1) by (intro divide_left_mono) simp_all
      then show ?thesis by simp
    qed
    finally show ?thesis by (simp add: dW_def)
  qed
  have r2: "dx \<le> aW / 9007199254740992 + eta" using e2 by (simp add: W_def dx_def aW_def)
  have r3: "dy \<le> a1 / 9007199254740992 + eta" using e3 by (simp add: dy_def a1_def)
  have r4: "dz \<le> 500 * ay / 9007199254740992 + eta" using e4 by (simp add: dz_def ay_def abs_mult)
  have t1: "aW \<le> X + dW" unfolding aW_def dW_def using X0 by linarith
  have t2: "dX \<le> dx + dW" unfolding dX_def dx_def dW_def by linarith
  have t3: "a1 \<le> 1 + X + dX" unfolding a1_def dX_def using X0 by linarith
  have t4: "dY \<le> dy + dX" unfolding dY_def dy_def dX_def by linarith
  have t5: "ay \<le> 1 + X + dY" unfolding ay_def dY_def using X0 by linarith
  have t6: "dZ \<le> dz + 500 * dY"
  proof -
    have "z - (1 - X) * 500 = (z - y * 500) + 500 * (y - (1 - X))" by (simp add: algebra_simps)
    then have "dZ = \<bar>(z - y * 500) + 500 * (y - (1 - X))\<bar>" by (simp only: dZ_def)
    also have "\<dots> \<le> \<bar>z - y * 500\<bar> + \<bar>500 * (y - (1 - X))\<bar>" by (rule abs_triangle_ineq)
    also have "\<dots> = dz + 500 * dY" unfolding dz_def dY_def abs_mult by simp
    finally show ?thesis .
  qed
  have xX: "dX \<le> 3 * X / 9007199254740992 + 3 * eta"
    using w r2 t1 t2 X0 eta(1) by linarith
  have yX: "dY \<le> 1 / 9007199254740992 + 5 * X / 9007199254740992 + 5 * eta"
    using xX r3 t3 t4 X0 eta(1) by linarith
  have zX: "dZ \<le> 1500 / 9007199254740992 + 3500 * X / 9007199254740992 + 2502 * eta"
    using yX r4 t5 t6 X0 eta(1) by linarith
  define B where "B = 1500 / 9007199254740992 + 3500 * X / 9007199254740992 + 2502 * eta"
  have "B * (2 * Tr) = 3000 * Tr / 9007199254740992 + 7000 * (X * Tr) / 9007199254740992 + 5004 * (eta * Tr)"
    by (simp add: B_def algebra_simps add_divide_distrib)
  also have "\<dots> = 3000 * Tr / 9007199254740992 + 7000 * a / 9007199254740992 + 5004 * (eta * Tr)" by (simp only: XT)
  finally have BT: "B * (2 * Tr) = 3000 * Tr / 9007199254740992 + 7000 * a / 9007199254740992 + 5004 * (eta * Tr)" .
  have etaT: "eta * Tr \<le> 1 / 1152921504606846976 * 1073741824"
    using eta' eta(1) T by (intro mult_mono) simp_all
  have a': "a < 2147483648" and T': "Tr < 1073741824" using a(2) T(2) by simp_all
  have "B * (2 * Tr) < 1" unfolding BT using etaT a' T' by linarith
  then have "B < 1 / (2 * Tr)" using Tpos by (simp add: pos_less_divide_eq)
  then show ?thesis using zX by (simp add: B_def X_def dZ_def)
qed

text \<open>
  So the time bonus of the code is the value of the exact formula, or one less.
\<close>

lemma timeBonus_near_exact:
  assumes d: "0 \<le> d" "d < 2 ^ 40" and T: "1 \<le> T" "T < 2 ^ 30"
  shows "\<exists>b. mathMax0 (mathFloor (jsmul (jssub (Fin 1)
                 (jsdiv (jsdiv (Fin (of_int d)) (Fin 1000)) (Fin (of_int T)))) (Fin 500)))
              = Fin (of_int b)
     \<and> 0 \<le> b
     \<and> max 0 \<lfloor>(1 - (rat_of_int d / 1000) / of_int T) * 500\<rfloor> - 1 \<le> b
     \<and> b \<le> max 0 \<lfloor>(1 - (rat_of_int d / 1000) / of_int T) * 500\<rfloor>"
proof -
  define a where "a = rat_of_int d / 1000"
  define Tr where "Tr = rat_of_int T"
  define eta :: rat where "eta = 2 powi (- 1075)"
  have eta: "0 \<le> eta" "eta \<le> 1 / 2 ^ 60"
  proof -
    show "0 \<le> eta" by (simp add: eta_def)
    have "(2::rat) powi (- 1075) \<le> 2 powi (- 60)" by (intro power_int_increasing) simp_all
    then show "eta \<le> 1 / 2 ^ 60" unfolding eta_def by (simp add: power_int_minus_divide)
  qed
  have big: "(2::rat) ^ 50 \<le> 2 powi 1023"
  proof -
    have "(2::rat) powi 50 \<le> 2 powi 1023" by (intro power_int_increasing) simp_all
    then show ?thesis by simp
  qed
  have T1: "1 \<le> Tr" and T2: "Tr < 2 ^ 30"
  proof -
    show "1 \<le> Tr" using T(1) by (simp add: Tr_def)
    have "rat_of_int T < rat_of_int (2 ^ 30)" using T(2) by (simp only: of_int_less_iff)
    then show "Tr < 2 ^ 30" by (simp add: Tr_def)
  qed
  have a0: "0 \<le> a" using d(1) by (simp add: a_def)
  have a1: "a < 2 ^ 31"
  proof -
    have "rat_of_int d < rat_of_int (2 ^ 40)" using d(2) by (simp only: of_int_less_iff)
    then show ?thesis by (simp add: a_def)
  qed
  have "\<bar>rat_of_int d / 1000\<bar> < 2 powi 1023" using a0 a1 big by (simp add: a_def)
  from jsdiv_error [of "Fin (of_int d)" "of_int d" "Fin 1000" 1000, OF _ _ _ this]
  obtain te where te: "valueOf (jsdiv (Fin (of_int d)) (Fin 1000)) = Some te"
    and e1: "\<bar>te - a\<bar> \<le> \<bar>a\<bar> / 2 ^ 53 + eta"
    by (auto simp: a_def eta_def)
  have eta1: "eta \<le> 1" using eta(2) by simp
  have "\<bar>a\<bar> \<le> 2147483648" using a0 a1 by simp
  from rounded_bound [OF e1 this eta1] have teb: "\<bar>te\<bar> \<le> 4294967297" by simp
  have "\<bar>te / Tr\<bar> \<le> \<bar>te\<bar>"
  proof -
    have "\<bar>te / Tr\<bar> = \<bar>te\<bar> / Tr" using T1 by simp
    also have "\<dots> \<le> \<bar>te\<bar> / 1" using T1 by (intro divide_left_mono) simp_all
    finally show ?thesis by simp
  qed
  then have wb: "\<bar>te / Tr\<bar> \<le> 4294967297" using teb by linarith
  then have "\<bar>te / Tr\<bar> < 2 powi 1023" using big by simp
  moreover have "Tr \<noteq> 0" using T1 by auto
  ultimately obtain x where x: "valueOf (jsdiv (jsdiv (Fin (of_int d)) (Fin 1000)) (Fin Tr)) = Some x"
    and e2: "\<bar>x - te / Tr\<bar> \<le> \<bar>te / Tr\<bar> / 2 ^ 53 + eta"
    using jsdiv_error [of "jsdiv (Fin (of_int d)) (Fin 1000)" te "Fin Tr" Tr] te
    by (auto simp: eta_def)
  from rounded_bound [OF e2 wb eta1] have xb: "\<bar>x\<bar> \<le> 8589934595" by simp
  then have x1: "\<bar>1 - x\<bar> \<le> 8589934596" by linarith
  then have "\<bar>1 - x\<bar> < 2 powi 1023" using big by simp
  then obtain y where y: "valueOf (jssub (Fin 1)
        (jsdiv (jsdiv (Fin (of_int d)) (Fin 1000)) (Fin Tr))) = Some y"
    and e3: "\<bar>y - (1 - x)\<bar> \<le> \<bar>1 - x\<bar> / 2 ^ 53 + eta"
    using jssub_error [of "Fin 1" 1 "jsdiv (jsdiv (Fin (of_int d)) (Fin 1000)) (Fin Tr)" x] x
    by (auto simp: eta_def)
  from rounded_bound [OF e3 x1 eta1] have yb: "\<bar>y\<bar> \<le> 17179869193" by simp
  then have "\<bar>y * 500\<bar> < 2 powi 1023" using big by (simp add: abs_mult)
  then obtain z where z: "valueOf (jsmul (jssub (Fin 1)
        (jsdiv (jsdiv (Fin (of_int d)) (Fin 1000)) (Fin Tr))) (Fin 500)) = Some z"
    and e4: "\<bar>z - y * 500\<bar> \<le> \<bar>y * 500\<bar> / 2 ^ 53 + eta"
    using jsmul_error [of "jssub (Fin 1) (jsdiv (jsdiv (Fin (of_int d)) (Fin 1000)) (Fin Tr))" y
        "Fin 500" 500] y
    by (auto simp: eta_def)
  have close: "\<bar>z - (1 - a / Tr) * 500\<bar> < 1 / (2 * Tr)"
    using a0 a1 T1 T2 eta e1 e2 e3 e4 by (rule bonus_error)
  have frac: "(1 - a / Tr) * 500 = rat_of_int (1000 * T - d) / rat_of_int (2 * T)"
    using T1 by (simp add: a_def Tr_def field_simps)
  have "\<bar>z - rat_of_int (1000 * T - d) / rat_of_int (2 * T)\<bar> < 1 / rat_of_int (2 * T)"
    using close unfolding frac by (simp add: Tr_def)
  from floor_near_fraction [OF _ this] T(1)
  have fl: "\<lfloor>(1 - a / Tr) * 500\<rfloor> - 1 \<le> \<lfloor>z\<rfloor> \<and> \<lfloor>z\<rfloor> \<le> \<lfloor>(1 - a / Tr) * 500\<rfloor>"
    unfolding frac by simp
  have "mathMax0 (mathFloor (jsmul (jssub (Fin 1)
                 (jsdiv (jsdiv (Fin (of_int d)) (Fin 1000)) (Fin Tr))) (Fin 500)))
              = Fin (of_int (max 0 \<lfloor>z\<rfloor>))"
    using z by (rule mathMax0_mathFloor)
  moreover have "0 \<le> max 0 \<lfloor>z\<rfloor>" by simp
  moreover have "max 0 \<lfloor>(1 - a / Tr) * 500\<rfloor> - 1 \<le> max 0 \<lfloor>z\<rfloor>"
    using fl by linarith
  moreover have "max 0 \<lfloor>z\<rfloor> \<le> max 0 \<lfloor>(1 - a / Tr) * 500\<rfloor>"
    using fl by linarith
  ultimately show ?thesis unfolding a_def Tr_def by blast
qed

subsection \<open>submitGuess\<close>

lemma map_of_putLobby: "map_of (lobbies (putLobby c l m)) = (map_of (lobbies m))(c \<mapsto> l)"
  by (simp add: putLobby_def update_conv')

lemma putLobby_index:
  "playerToLobby (putLobby c l m) = playerToLobby m" "playerIds (putLobby c l m) = playerIds m"
  by (simp_all add: putLobby_def)

lemma callerLobby_putLobby:
  assumes "callerLobby m sid = Some (c, l, pid)"
  shows "callerLobby (putLobby c l' m) sid = Some (c, l', pid)"
  using assms
  by (auto simp: callerLobby_def getLobbyBySocket_def getPlayerIdBySocket_def putLobby_def
      update_conv' split: option.splits if_splits)

text \<open>What an accepted guess returns, written out.\<close>

lemma submitGuess_accepted:
  assumes "callerLobby m sid = Some (c, l, pid)" and "currentRound l = Some r"
    and "map_of (players l) pid = Some p" and "\<not> hasGuessed p"
  shows "submitGuess m sid g now =
     (let timeElapsed = jsdiv (jssub (Fin (of_int now)) (Fin (of_int (startedAt r)))) (Fin 1000);
          correct = checkGuess g (round_song r);
          pts = (if correct
                 then jsadd (jsadd (Fin 1000) (timeBonus (settings l) timeElapsed))
                        (jsmul (Fin (of_nat (streak p))) (Fin 100))
                 else Fin 0);
          p2 = (if correct then p\<lparr>streak := streak p + 1, score := jsadd (score p) pts\<rparr>
                else p\<lparr>streak := 0\<rparr>)
                 \<lparr>hasGuessed := True, lastGuessCorrect := correct, roundScore := pts\<rparr>;
          l' = l\<lparr>players := AList.update pid p2 (players l),
                  currentRound := Some (r\<lparr>guesses :=
                     AList.update pid \<lparr>g_guess = g, g_correct = correct, g_time = timeElapsed,
                                       g_score = pts\<rparr> (guesses r)\<rparr>)\<rparr>
      in Inr (Some \<lparr>r_correct = correct, r_score = pts, r_playerId = pid,
                    r_allGuessed = list_all hasGuessed (map snd (players l'))\<rparr>,
              putLobby c l' m))"
  using assms by (simp add: submitGuess_def Let_def)

lemma submitGuess_rejected:
  assumes "callerLobby m sid = Some (c, l, pid)" and "map_of (players l) pid = Some p"
    and "hasGuessed p"
  shows "submitGuess m sid g now = Inr (None, m)"
  using assms by (simp add: submitGuess_def split: option.split)

text \<open>
  Whether every entry of a record satisfies a predicate, after one entry was replaced:
  the new entry does, and so does every other one.
\<close>

lemma list_all_update:
  assumes "distinct (map fst ps)" and "map_of ps k = Some v"
  shows "list_all P (map snd (AList.update k v' ps))
     \<longleftrightarrow> P v' \<and> (\<forall>k' q. k' \<noteq> k \<and> map_of ps k' = Some q \<longrightarrow> P q)"
  using assms
proof (induction ps)
  case Nil
  then show ?case by simp
next
  case (Cons a ps)
  obtain ka va where a: "a = (ka, va)" by (cases a)
  show ?case
  proof (cases "ka = k")
    case True
    have notin: "k \<notin> fst ` set ps" using Cons.prems(1) a True by simp
    have "list_all P (map snd ps) \<longleftrightarrow> (\<forall>k' q. k' \<noteq> k \<and> map_of ps k' = Some q \<longrightarrow> P q)"
    proof
      assume all: "list_all P (map snd ps)"
      show "\<forall>k' q. k' \<noteq> k \<and> map_of ps k' = Some q \<longrightarrow> P q"
      proof (intro allI impI)
        fix k' q
        assume "k' \<noteq> k \<and> map_of ps k' = Some q"
        then have "(k', q) \<in> set ps" by (simp add: map_of_SomeD)
        then have "q \<in> set (map snd ps)" by force
        then show "P q" using all by (auto simp: list_all_iff)
      qed
    next
      assume r: "\<forall>k' q. k' \<noteq> k \<and> map_of ps k' = Some q \<longrightarrow> P q"
      have "\<And>q. q \<in> set (map snd ps) \<Longrightarrow> P q"
      proof -
        fix q
        assume "q \<in> set (map snd ps)"
        then obtain k' where in_ps: "(k', q) \<in> set ps" by auto
        have d: "distinct (map fst ps)" using Cons.prems(1) by simp
        have "map_of ps k' = Some q" using d in_ps by simp
        moreover have "k' \<noteq> k" using in_ps notin by force
        ultimately show "P q" using r by blast
      qed
      then show "list_all P (map snd ps)" by (auto simp: list_all_iff)
    qed
    then show ?thesis using a True by auto
  next
    case False
    have d: "distinct (map fst ps)" using Cons.prems(1) by simp
    have m: "map_of ps k = Some v" using Cons.prems(2) a False by simp
    have ih: "list_all P (map snd (AList.update k v' ps))
        \<longleftrightarrow> P v' \<and> (\<forall>k' q. k' \<noteq> k \<and> map_of ps k' = Some q \<longrightarrow> P q)"
      using Cons.IH [OF d m] .
    have nk: "map_of ps ka = None"
      using Cons.prems(1) a by (simp add: map_of_eq_None_iff)
    show ?thesis using a False ih nk by auto
  qed
qed

text \<open>
  C7. \<open>submitGuess\<close> returns null and leaves the manager as it is when the socket has
  no lobby or player id, when the lobby has no current round, and when the player has
  already guessed. Otherwise it stores the guess under the player's id in the current
  round, keeps the other guesses, marks the player as having guessed (with the outcome
  and the points of the guess) and changes nothing else in the manager, so that a
  second guess of the same socket is rejected; it returns the player's id and whether
  every player of the lobby now has \<open>hasGuessed\<close> set, that is, whether every other
  player of the lobby had guessed before.
\<close>

theorem submitGuess_once:
  "(callerLobby m sid = None \<longrightarrow> submitGuess m sid g now = Inr (None, m))
   \<and> (\<forall>c l pid. callerLobby m sid = Some (c, l, pid) \<and> currentRound l = None \<longrightarrow>
         submitGuess m sid g now = Inr (None, m))
   \<and> (\<forall>c l pid p. callerLobby m sid = Some (c, l, pid) \<and> map_of (players l) pid = Some p
         \<and> hasGuessed p \<longrightarrow> submitGuess m sid g now = Inr (None, m))
   \<and> (\<forall>c l pid r p. callerLobby m sid = Some (c, l, pid) \<and> currentRound l = Some r
         \<and> map_of (players l) pid = Some p \<and> \<not> hasGuessed p \<longrightarrow>
       (\<exists>res m' l' r' e p'.
          submitGuess m sid g now = Inr (Some res, m')
          \<and> map_of (lobbies m') c = Some l' \<and> currentRound l' = Some r'
          \<and> map_of (guesses r') pid = Some e
          \<and> g_guess e = g \<and> g_correct e = checkGuess g (round_song r)
          \<and> g_score e = r_score res
          \<and> (\<forall>k. k \<noteq> pid \<longrightarrow> map_of (guesses r') k = map_of (guesses r) k)
          \<and> r_playerId res = pid \<and> r_correct res = checkGuess g (round_song r)
          \<and> (r_allGuessed res \<longleftrightarrow> (\<forall>q \<in> set (map snd (players l')). hasGuessed q))
          \<and> m' = m\<lparr>lobbies := AList.update c l' (lobbies m)\<rparr>
          \<and> l' = l\<lparr>players := AList.update pid p' (players l), currentRound := Some r'\<rparr>
          \<and> r' = r\<lparr>guesses := AList.update pid e (guesses r)\<rparr>
          \<and> map_of (players l') pid = Some p'
          \<and> (\<forall>k. k \<noteq> pid \<longrightarrow> map_of (players l') k = map_of (players l) k)
          \<and> hasGuessed p' \<and> lastGuessCorrect p' = checkGuess g (round_song r)
          \<and> roundScore p' = r_score res
          \<and> player_id p' = player_id p \<and> socketId p' = socketId p
          \<and> player_name p' = player_name p \<and> player_avatar p' = player_avatar p
          \<and> isHost p' = isHost p \<and> isReady p' = isReady p
          \<and> (distinct (map fst (players l)) \<longrightarrow>
               (r_allGuessed res
                  \<longleftrightarrow> (\<forall>k q. k \<noteq> pid \<and> map_of (players l) k = Some q \<longrightarrow> hasGuessed q)))
          \<and> callerLobby m' sid = Some (c, l', pid)
          \<and> (\<forall>g2 now2. submitGuess m' sid g2 now2 = Inr (None, m'))))"
proof (intro conjI allI impI)
  assume "callerLobby m sid = None"
  then show "submitGuess m sid g now = Inr (None, m)"
    by (simp add: submitGuess_def)
next
  fix c l pid
  assume "callerLobby m sid = Some (c, l, pid) \<and> currentRound l = None"
  then show "submitGuess m sid g now = Inr (None, m)"
    by (simp add: submitGuess_def)
next
  fix c l pid p
  assume "callerLobby m sid = Some (c, l, pid) \<and> map_of (players l) pid = Some p
            \<and> hasGuessed p"
  then show "submitGuess m sid g now = Inr (None, m)"
    by (simp add: submitGuess_def split: option.split)
next
  fix c l pid r p
  assume h: "callerLobby m sid = Some (c, l, pid) \<and> currentRound l = Some r
               \<and> map_of (players l) pid = Some p \<and> \<not> hasGuessed p"
  define te where "te = jsdiv (jssub (Fin (of_int now)) (Fin (of_int (startedAt r)))) (Fin 1000)"
  define correct where "correct = checkGuess g (round_song r)"
  define pts where "pts = (if correct
                 then jsadd (jsadd (Fin 1000) (timeBonus (settings l) te))
                        (jsmul (Fin (of_nat (streak p))) (Fin 100))
                 else Fin 0)"
  define p2 where "p2 = (if correct then p\<lparr>streak := streak p + 1, score := jsadd (score p) pts\<rparr>
                else p\<lparr>streak := 0\<rparr>)
                 \<lparr>hasGuessed := True, lastGuessCorrect := correct, roundScore := pts\<rparr>"
  define e where "e = \<lparr>g_guess = g, g_correct = correct, g_time = te, g_score = pts\<rparr>"
  define r' where "r' = r\<lparr>guesses := AList.update pid e (guesses r)\<rparr>"
  define l' where "l' = l\<lparr>players := AList.update pid p2 (players l), currentRound := Some r'\<rparr>"
  define res where "res = \<lparr>r_correct = correct, r_score = pts, r_playerId = pid,
                    r_allGuessed = list_all hasGuessed (map snd (players l'))\<rparr>"
  have ret: "submitGuess m sid g now = Inr (Some res, putLobby c l' m)"
    using submitGuess_accepted [of m sid c l pid r p g now] h
    by (simp add: Let_def te_def correct_def pts_def p2_def e_def r'_def l'_def res_def)
  have cl: "callerLobby (putLobby c l' m) sid = Some (c, l', pid)"
    using h by (simp add: callerLobby_putLobby)
  have pl: "map_of (players l') pid = Some p2" by (simp add: l'_def update_conv')
  have hg: "hasGuessed p2" by (simp add: p2_def)
  have again: "\<forall>g2 now2. submitGuess (putLobby c l' m) sid g2 now2 = Inr (None, putLobby c l' m)"
    using submitGuess_rejected [OF cl pl hg] by simp
  have others: "distinct (map fst (players l)) \<longrightarrow>
               (r_allGuessed res
                  \<longleftrightarrow> (\<forall>k q. k \<noteq> pid \<and> map_of (players l) k = Some q \<longrightarrow> hasGuessed q))"
  proof
    assume d: "distinct (map fst (players l))"
    have mp: "map_of (players l) pid = Some p" using h by simp
    show "r_allGuessed res
            \<longleftrightarrow> (\<forall>k q. k \<noteq> pid \<and> map_of (players l) k = Some q \<longrightarrow> hasGuessed q)"
      using list_all_update [OF d mp, of hasGuessed p2] hg by (simp add: res_def l'_def)
  qed
  have fields: "lastGuessCorrect p2 = correct \<and> roundScore p2 = pts
      \<and> player_id p2 = player_id p \<and> socketId p2 = socketId p
      \<and> player_name p2 = player_name p \<and> player_avatar p2 = player_avatar p
      \<and> isHost p2 = isHost p \<and> isReady p2 = isReady p"
    by (simp add: p2_def)
  have stored: "map_of (lobbies (putLobby c l' m)) c = Some l' \<and> currentRound l' = Some r'
      \<and> map_of (guesses r') pid = Some e
      \<and> (\<forall>k. k \<noteq> pid \<longrightarrow> map_of (guesses r') k = map_of (guesses r) k)
      \<and> (\<forall>k. k \<noteq> pid \<longrightarrow> map_of (players l') k = map_of (players l) k)"
    by (simp add: map_of_putLobby l'_def r'_def update_conv')
  have entry: "g_guess e = g \<and> g_correct e = correct \<and> g_score e = pts"
    by (simp add: e_def)
  have result: "r_score res = pts \<and> r_playerId res = pid \<and> r_correct res = correct
      \<and> (r_allGuessed res \<longleftrightarrow> (\<forall>q \<in> set (map snd (players l')). hasGuessed q))"
    by (simp add: res_def list_all_iff)
  show "\<exists>res m' l' r' e p'.
          submitGuess m sid g now = Inr (Some res, m')
          \<and> map_of (lobbies m') c = Some l' \<and> currentRound l' = Some r'
          \<and> map_of (guesses r') pid = Some e
          \<and> g_guess e = g \<and> g_correct e = checkGuess g (round_song r)
          \<and> g_score e = r_score res
          \<and> (\<forall>k. k \<noteq> pid \<longrightarrow> map_of (guesses r') k = map_of (guesses r) k)
          \<and> r_playerId res = pid \<and> r_correct res = checkGuess g (round_song r)
          \<and> (r_allGuessed res \<longleftrightarrow> (\<forall>q \<in> set (map snd (players l')). hasGuessed q))
          \<and> m' = m\<lparr>lobbies := AList.update c l' (lobbies m)\<rparr>
          \<and> l' = l\<lparr>players := AList.update pid p' (players l), currentRound := Some r'\<rparr>
          \<and> r' = r\<lparr>guesses := AList.update pid e (guesses r)\<rparr>
          \<and> map_of (players l') pid = Some p'
          \<and> (\<forall>k. k \<noteq> pid \<longrightarrow> map_of (players l') k = map_of (players l) k)
          \<and> hasGuessed p' \<and> lastGuessCorrect p' = checkGuess g (round_song r)
          \<and> roundScore p' = r_score res
          \<and> player_id p' = player_id p \<and> socketId p' = socketId p
          \<and> player_name p' = player_name p \<and> player_avatar p' = player_avatar p
          \<and> isHost p' = isHost p \<and> isReady p' = isReady p
          \<and> (distinct (map fst (players l)) \<longrightarrow>
               (r_allGuessed res
                  \<longleftrightarrow> (\<forall>k q. k \<noteq> pid \<and> map_of (players l) k = Some q \<longrightarrow> hasGuessed q)))
          \<and> callerLobby m' sid = Some (c, l', pid)
          \<and> (\<forall>g2 now2. submitGuess m' sid g2 now2 = Inr (None, m'))"
  proof (intro exI [of _ res] exI [of _ "putLobby c l' m"] exI [of _ l'] exI [of _ r']
      exI [of _ e] exI [of _ p2] conjI)
    show "submitGuess m sid g now = Inr (Some res, putLobby c l' m)" by (rule ret)
    show "putLobby c l' m = m\<lparr>lobbies := AList.update c l' (lobbies m)\<rparr>"
      by (simp add: putLobby_def)
    show "l' = l\<lparr>players := AList.update pid p2 (players l), currentRound := Some r'\<rparr>"
      by (rule l'_def)
    show "r' = r\<lparr>guesses := AList.update pid e (guesses r)\<rparr>" by (rule r'_def)
    show "callerLobby (putLobby c l' m) sid = Some (c, l', pid)" by (rule cl)
    show "\<forall>g2 now2. submitGuess (putLobby c l' m) sid g2 now2 = Inr (None, putLobby c l' m)"
      by (rule again)
    show "distinct (map fst (players l)) \<longrightarrow>
               (r_allGuessed res
                  \<longleftrightarrow> (\<forall>k q. k \<noteq> pid \<and> map_of (players l) k = Some q \<longrightarrow> hasGuessed q))"
      by (rule others)
    show "map_of (players l') pid = Some p2" by (rule pl)
    show "hasGuessed p2" by (rule hg)
  qed (simp_all add: fields stored entry result correct_def [symmetric])
qed

lemma exPlaying_caller:
  "callerLobby exPlaying ''s1'' = Some (''ABCDE'', exPlayingLobby, ''p1'')"
  "callerLobby exPlaying ''s2'' = Some (''ABCDE'', exPlayingLobby, ''p2'')"
  by (simp_all add: callerLobby_def getLobbyBySocket_def getPlayerIdBySocket_def exPlaying_def)

lemma exPlaying_round: "currentRound exPlayingLobby = Some exRound"
  by (simp add: exPlayingLobby_def exLobby_def)

lemma exPlaying_players:
  "map_of (players exPlayingLobby) ''p1'' = Some exHost"
  "map_of (players exPlayingLobby) ''p2'' = Some exGuest"
  "\<not> hasGuessed exHost" "\<not> hasGuessed exGuest"
  by (simp_all add: exPlayingLobby_def exLobby_def exHost_def exGuest_def exPlayer_def)

lemma exPlaying_keys: "players exPlayingLobby = [(''p1'', exHost), (''p2'', exGuest)]"
  by (simp add: exPlayingLobby_def exLobby_def)

lemma exManager_caller:
  "callerLobby exManager ''s1''
     = Some (''ABCDE'', exLobby [(''p1'', exPlayer ''p1'' ''s1'' True True)] [], ''p1'')"
  by (simp add: callerLobby_def getLobbyBySocket_def getPlayerIdBySocket_def exManager_def)

theorem submitGuess_once_witness:
  "(\<exists>res m'. submitGuess exPlaying ''s1'' ''yesterday'' 1000 = Inr (Some res, m')
       \<and> r_playerId res = ''p1'' \<and> \<not> r_allGuessed res
       \<and> submitGuess m' ''s1'' ''help'' 2000 = Inr (None, m')
       \<and> (\<exists>res2 m2. submitGuess m' ''s2'' ''let it be'' 3000 = Inr (Some res2, m2)
             \<and> r_playerId res2 = ''p2'' \<and> r_allGuessed res2))
   \<and> submitGuess exManager ''s1'' ''yesterday'' 1000 = Inr (None, exManager)"
proof -
  have a: "callerLobby exPlaying ''s1'' = Some (''ABCDE'', exPlayingLobby, ''p1'')
             \<and> currentRound exPlayingLobby = Some exRound
             \<and> map_of (players exPlayingLobby) ''p1'' = Some exHost \<and> \<not> hasGuessed exHost"
    by (simp add: exPlaying_caller exPlaying_round exPlaying_players)
  have b: "callerLobby exManager ''s1''
             = Some (''ABCDE'', exLobby [(''p1'', exPlayer ''p1'' ''s1'' True True)] [], ''p1'')
           \<and> currentRound (exLobby [(''p1'', exPlayer ''p1'' ''s1'' True True)] []) = None"
    by (simp add: exManager_caller exLobby_def)
  note t1 = submitGuess_once [of exPlaying "''s1''" "''yesterday''" 1000]
  note t2 = submitGuess_once [of exManager "''s1''" "''yesterday''" 1000]
  from t1 [THEN conjunct2, THEN conjunct2, THEN conjunct2, rule_format, OF a]
  obtain res m' l' r' e p' where first:
    "submitGuess exPlaying ''s1'' ''yesterday'' 1000 = Inr (Some res, m')"
    "r_playerId res = ''p1''"
    "r_allGuessed res \<longleftrightarrow> (\<forall>q \<in> set (map snd (players l')). hasGuessed q)"
    "l' = exPlayingLobby\<lparr>players := AList.update ''p1'' p' (players exPlayingLobby),
            currentRound := Some r'\<rparr>"
    "hasGuessed p'"
    "m' = exPlaying\<lparr>lobbies := AList.update ''ABCDE'' l' (lobbies exPlaying)\<rparr>"
    "\<forall>g2 now2. submitGuess m' ''s1'' g2 now2 = Inr (None, m')"
    by (elim exE conjE) (rule that, assumption+)
  have pl: "players l' = [(''p1'', p'), (''p2'', exGuest)]"
    by (simp add: first(4) exPlaying_keys)
  have notall: "\<not> r_allGuessed res"
    using first(3) exPlaying_players(4) by (simp add: pl)
  have c1: "callerLobby m' ''s2'' = Some (''ABCDE'', l', ''p2'')"
    by (simp add: first(6) callerLobby_def getLobbyBySocket_def getPlayerIdBySocket_def
        exPlaying_def)
  have c2: "currentRound l' = Some r'" by (simp add: first(4))
  have c3: "map_of (players l') ''p2'' = Some exGuest" by (simp add: pl)
  have c: "callerLobby m' ''s2'' = Some (''ABCDE'', l', ''p2'')
             \<and> currentRound l' = Some r'
             \<and> map_of (players l') ''p2'' = Some exGuest \<and> \<not> hasGuessed exGuest"
    using c1 c2 c3 exPlaying_players(4) by simp
  note t3 = submitGuess_once [of m' "''s2''" "''let it be''" 3000]
  from t3 [THEN conjunct2, THEN conjunct2, THEN conjunct2, rule_format, OF c]
  obtain res2 m2 l2 p2' r2 where second:
    "submitGuess m' ''s2'' ''let it be'' 3000 = Inr (Some res2, m2)"
    "r_playerId res2 = ''p2''"
    "r_allGuessed res2 \<longleftrightarrow> (\<forall>q \<in> set (map snd (players l2)). hasGuessed q)"
    "l2 = l'\<lparr>players := AList.update ''p2'' p2' (players l'), currentRound := Some r2\<rparr>"
    "hasGuessed p2'"
    by (elim exE conjE) (rule that, assumption+)
  have all: "r_allGuessed res2"
    using second(3) first(5) second(5) by (simp add: second(4) pl)
  have then_guest: "\<exists>res2 m2. submitGuess m' ''s2'' ''let it be'' 3000 = Inr (Some res2, m2)
             \<and> r_playerId res2 = ''p2'' \<and> r_allGuessed res2"
    using second(1) second(2) all by blast
  have "\<exists>res m'. submitGuess exPlaying ''s1'' ''yesterday'' 1000 = Inr (Some res, m')
       \<and> r_playerId res = ''p1'' \<and> \<not> r_allGuessed res
       \<and> submitGuess m' ''s1'' ''help'' 2000 = Inr (None, m')
       \<and> (\<exists>res2 m2. submitGuess m' ''s2'' ''let it be'' 3000 = Inr (Some res2, m2)
             \<and> r_playerId res2 = ''p2'' \<and> r_allGuessed res2)"
  proof (rule exI [of _ res], rule exI [of _ m'], intro conjI)
    show "submitGuess m' ''s1'' ''help'' 2000 = Inr (None, m')" using first(7) by simp
  qed (fact first(1) first(2) notall then_guest)+
  moreover have "submitGuess exManager ''s1'' ''yesterday'' 1000 = Inr (None, exManager)"
    using t2 [THEN conjunct2, THEN conjunct1, rule_format, OF b] .
  ultimately show ?thesis by simp
qed

text \<open>The points of the example of C1: no time has passed, 30 seconds per round, streak 2.\<close>

lemma points_1700:
  "jsadd (jsadd (Fin 1000)
      (mathMax0 (mathFloor (jsmul (jssub (Fin 1)
         (jsdiv (jsdiv (jssub (Fin (of_int a)) (Fin (of_int a))) (Fin 1000)) (Fin 30)))
         (Fin 500)))))
      (jsmul (Fin 2) (Fin 100)) = Fin 1700"
proof -
  have 1: "jssub (Fin (of_int a)) (Fin (of_int a)) = Fin 0"
    using jssub_int [of a a] by simp
  have 2: "jsdiv (Fin 0) (Fin 1000) = Fin 0" "jsdiv (Fin 0) (Fin 30) = Fin 0"
    by (simp_all add: jsdiv_def signedZero_def)
  have 3: "jssub (Fin 1) (Fin 0) = Fin 1"
    using jssub_int [of 1 0] by simp
  have 4: "jsmul (Fin 1) (Fin 500) = Fin 500"
    using jsmul_int [of 1 500] by simp
  have 5: "jsadd (Fin 1000) (Fin 500) = Fin 1500"
    using jsadd_int [of 1000 500] by simp
  have 6: "jsmul (Fin 2) (Fin 100) = Fin 200"
    using jsmul_int [of 2 100] by simp
  have 7: "jsadd (Fin 1500) (Fin 200) = Fin 1700"
    using jsadd_int [of 1500 200] by simp
  show ?thesis by (simp add: 1 2 3 4 5 6 7)
qed

text \<open>
  \<open>updateSettings\<close> stores any number as \<open>timePerRound\<close>. With a zero the quotient is
  infinite or undefined, and so is the bonus.
\<close>

lemma timeBonus_zero_timePerRound:
  assumes "scoreMultiplierSpeed st"
  shows "timePerRound st = Fin 0 \<Longrightarrow> timeBonus st (Fin 0) = NaN"
    and "timePerRound st = Fin 0 \<Longrightarrow> 0 < q \<Longrightarrow> timeBonus st (Fin q) = Fin 0"
    and "timePerRound st = NegZero \<Longrightarrow> 0 < q \<Longrightarrow> timeBonus st (Fin q) = Infinity"
  using assms
  by (simp_all add: timeBonus_def jsdiv_def jssub_def jsadd_def jsmul_def signedInfinity_def)

text \<open>
  The sums round as well. With \<open>timePerRound = -2^-70\<close>, one second into the round and
  with streak 2, the bonus is \<open>500 * 2^70\<close>, and adding 1000 and 200 to it changes nothing:
  the neighbouring doubles are \<open>2^26\<close> apart.
\<close>

lemma points_beyond_2_53:
  "jsadd (jsadd (Fin 1000)
      (mathMax0 (mathFloor (jsmul (jssub (Fin 1)
         (jsdiv (jsdiv (Fin 1000) (Fin 1000)) (Fin (- 1 / 2 ^ 70))))
         (Fin 500)))))
      (jsmul (Fin 2) (Fin 100)) = Fin 590295810358705651712000"
proof -
  have 1: "jsdiv (Fin 1000) (Fin 1000) = Fin 1"
    using roundNum_of_int [of 1] by (simp add: jsdiv_def)
  have "roundHalfEven (- 1180591620717411303424 / 2 powi (70 - 52)) = - 4503599627370496"
    using roundHalfEven_floor [of "- 4503599627370496" "- 1180591620717411303424 / 2 powi (70 - 52)"]
    by simp
  from roundNum_eval [of 70 "- 1180591620717411303424", OF _ _ _ _ this]
  have 2: "jsdiv (Fin 1) (Fin (- 1 / 2 ^ 70)) = Fin (- 1180591620717411303424)"
    by (simp add: jsdiv_def)
  have "roundHalfEven (1180591620717411303425 / 2 powi (70 - 52)) = 4503599627370496"
    using roundHalfEven_floor [of 4503599627370496 "1180591620717411303425 / 2 powi (70 - 52)"]
    by simp
  from roundNum_eval [of 70 "1180591620717411303425", OF _ _ _ _ this]
  have 3: "jssub (Fin 1) (Fin (- 1180591620717411303424)) = Fin 1180591620717411303424"
    by (simp add: jssub_def jsadd_def)
  have "roundHalfEven (590295810358705651712000 / 2 powi (78 - 52)) = 8796093022208000"
    using roundHalfEven_floor [of 8796093022208000 "590295810358705651712000 / 2 powi (78 - 52)"]
    by simp
  from roundNum_eval [of 78 "590295810358705651712000", OF _ _ _ _ this]
  have 4: "jsmul (Fin 1180591620717411303424) (Fin 500) = Fin 590295810358705651712000"
    by (simp add: jsmul_def)
  have "roundHalfEven (590295810358705651713000 / 2 powi (78 - 52)) = 8796093022208000"
    using roundHalfEven_floor [of 8796093022208000 "590295810358705651713000 / 2 powi (78 - 52)"]
    by simp
  from roundNum_eval [of 78 "590295810358705651713000", OF _ _ _ _ this]
  have 5: "jsadd (Fin 1000) (Fin 590295810358705651712000) = Fin 590295810358705651712000"
    by (simp add: jsadd_def)
  have 6: "jsmul (Fin 2) (Fin 100) = Fin 200"
    using jsmul_int [of 2 100] by simp
  have "roundHalfEven (590295810358705651712200 / 2 powi (78 - 52)) = 8796093022208000"
    using roundHalfEven_floor [of 8796093022208000 "590295810358705651712200 / 2 powi (78 - 52)"]
    by simp
  from roundNum_eval [of 78 "590295810358705651712200", OF _ _ _ _ this]
  have 7: "jsadd (Fin 590295810358705651712000) (Fin 200) = Fin 590295810358705651712000"
    by (simp add: jsadd_def)
  show ?thesis unfolding 1 2 3 4 by (simp add: 5 6 7)
qed

text \<open>
  C1, amended. For a guess that is not rejected (the socket has a lobby and a player, a
  round is current, the player has not guessed): a correct guess is worth
  \<open>1000 + timeBonus + streakBonus\<close>, where \<open>streakBonus\<close> is 100 times the streak the
  player had and \<open>timeBonus\<close> is \<open>max(0, floor((1 - timeElapsed / timePerRound) * 500))\<close>
  when the speed multiplier is on and 0 when it is off, every operation being the one of
  double arithmetic (\<open>timeElapsed\<close> is the elapsed milliseconds divided by 1000); the
  streak grows by one and the points are added to the score. When the time bonus is a
  non-negative integer \<open>b\<close> and \<open>1000 + b + 100 * streak\<close> is below 2^53 the points are
  exactly that integer. When the multiplier is on, \<open>timePerRound\<close> is a whole number of
  seconds from 1 to below 2^30, the elapsed time is from 0 to below 2^40 milliseconds and
  the streak is below 2^40, the points are those of the formula in exact arithmetic
  (\<open>exactPoints\<close>), or one point less. An incorrect guess is worth 0, sets the streak to 0
  and leaves the score as it is. A correct guess at the instant the round started, with
  \<open>timePerRound\<close> 30, streak 2 and the multiplier on, is worth 1700.
\<close>

theorem submitGuess_scoring:
  assumes "callerLobby m sid = Some (c, l, pid)" and "currentRound l = Some r"
    and "map_of (players l) pid = Some p" and "\<not> hasGuessed p"
  shows "\<exists>res m' l' p' timeElapsed bonus.
     submitGuess m sid g now = Inr (Some res, m')
     \<and> map_of (lobbies m') c = Some l' \<and> map_of (players l') pid = Some p'
     \<and> timeElapsed = jsdiv (jssub (Fin (of_int now)) (Fin (of_int (startedAt r)))) (Fin 1000)
     \<and> bonus = (if scoreMultiplierSpeed (settings l)
                then mathMax0 (mathFloor
                       (jsmul (jssub (Fin 1) (jsdiv timeElapsed (timePerRound (settings l))))
                          (Fin 500)))
                else Fin 0)
     \<and> (checkGuess g (round_song r) \<longrightarrow>
          r_score res = jsadd (jsadd (Fin 1000) bonus) (jsmul (Fin (of_nat (streak p))) (Fin 100))
          \<and> streak p' = streak p + 1
          \<and> score p' = jsadd (score p) (r_score res)
          \<and> (\<forall>b. bonus = Fin (of_int b) \<and> 0 \<le> b \<and> 1000 + b + 100 * int (streak p) < 2 ^ 53
                 \<longrightarrow> r_score res = Fin (of_int (1000 + b + 100 * int (streak p))))
          \<and> (now = startedAt r \<and> timePerRound (settings l) = Fin 30 \<and> streak p = 2
               \<and> scoreMultiplierSpeed (settings l) \<longrightarrow> r_score res = Fin 1700)
          \<and> (\<forall>T. scoreMultiplierSpeed (settings l)
                 \<and> timePerRound (settings l) = Fin (of_int T) \<and> 1 \<le> T \<and> T < 2 ^ 30
                 \<and> 0 \<le> now - startedAt r \<and> now - startedAt r < 2 ^ 40 \<and> streak p < 2 ^ 40
                 \<longrightarrow> (\<exists>pts. r_score res = Fin (of_int pts)
                        \<and> exactPoints (now - startedAt r) T (streak p) - 1 \<le> pts
                        \<and> pts \<le> exactPoints (now - startedAt r) T (streak p))))
     \<and> (\<not> checkGuess g (round_song r) \<longrightarrow>
          r_score res = Fin 0 \<and> streak p' = 0 \<and> score p' = score p)"
proof -
  define te where "te = jsdiv (jssub (Fin (of_int now)) (Fin (of_int (startedAt r)))) (Fin 1000)"
  define bonus where "bonus = (if scoreMultiplierSpeed (settings l)
                then mathMax0 (mathFloor
                       (jsmul (jssub (Fin 1) (jsdiv te (timePerRound (settings l)))) (Fin 500)))
                else Fin 0)"
  define correct where "correct = checkGuess g (round_song r)"
  define pts where "pts = (if correct
                 then jsadd (jsadd (Fin 1000) bonus) (jsmul (Fin (of_nat (streak p))) (Fin 100))
                 else Fin 0)"
  define p2 where "p2 = (if correct then p\<lparr>streak := streak p + 1, score := jsadd (score p) pts\<rparr>
                else p\<lparr>streak := 0\<rparr>)
                 \<lparr>hasGuessed := True, lastGuessCorrect := correct, roundScore := pts\<rparr>"
  define l' where "l' = l\<lparr>players := AList.update pid p2 (players l),
                  currentRound := Some (r\<lparr>guesses :=
                     AList.update pid \<lparr>g_guess = g, g_correct = correct, g_time = te,
                                       g_score = pts\<rparr> (guesses r)\<rparr>)\<rparr>"
  define res where "res = \<lparr>r_correct = correct, r_score = pts, r_playerId = pid,
                    r_allGuessed = list_all hasGuessed (map snd (players l'))\<rparr>"
  have ret: "submitGuess m sid g now = Inr (Some res, putLobby c l' m)"
    using submitGuess_accepted [OF assms, of g now]
    by (simp add: Let_def te_def bonus_def timeBonus_def correct_def pts_def p2_def l'_def
        res_def)
  have stored: "map_of (lobbies (putLobby c l' m)) c = Some l'"
    "map_of (players l') pid = Some p2"
    by (simp_all add: map_of_putLobby l'_def update_conv')
  have right: "correct \<longrightarrow>
          r_score res = jsadd (jsadd (Fin 1000) bonus) (jsmul (Fin (of_nat (streak p))) (Fin 100))
          \<and> streak p2 = streak p + 1
          \<and> score p2 = jsadd (score p) (r_score res)"
    by (simp add: res_def pts_def p2_def)
  have wrong: "\<not> correct \<longrightarrow> r_score res = Fin 0 \<and> streak p2 = 0 \<and> score p2 = score p"
    by (simp add: res_def pts_def p2_def)
  have exact: "correct \<longrightarrow> (\<forall>b. bonus = Fin (of_int b) \<and> 0 \<le> b
                   \<and> 1000 + b + 100 * int (streak p) < 2 ^ 53
                 \<longrightarrow> r_score res = Fin (of_int (1000 + b + 100 * int (streak p))))"
  proof (intro impI allI)
    fix b :: int
    assume c: correct
    assume "bonus = Fin (of_int b) \<and> 0 \<le> b \<and> 1000 + b + 100 * int (streak p) < 2 ^ 53"
    then have bo: "bonus = Fin (of_int b)" and b: "0 \<le> b"
      and small: "1000 + b + 100 * int (streak p) < 2 ^ 53" by simp_all
    have s: "jsmul (Fin (of_nat (streak p))) (Fin 100) = Fin (of_int (int (streak p) * 100))"
      using jsmul_int [of "int (streak p)" 100] small b by simp
    have t: "jsadd (Fin 1000) (Fin (of_int b)) = Fin (of_int (1000 + b))"
      using jsadd_int [of 1000 b] small b by simp
    have u: "jsadd (Fin (of_int (1000 + b))) (Fin (of_int (int (streak p) * 100)))
               = Fin (of_int (1000 + b + int (streak p) * 100))"
      using small b by (intro jsadd_int) simp
    have "r_score res
        = jsadd (jsadd (Fin 1000) (Fin (of_int b))) (jsmul (Fin (of_nat (streak p))) (Fin 100))"
      using c by (simp add: res_def pts_def bo)
    also have "\<dots> = Fin (of_int (1000 + b + int (streak p) * 100))"
      unfolding s t u by (rule refl)
    finally show "r_score res = Fin (of_int (1000 + b + 100 * int (streak p)))"
      by (simp add: mult.commute)
  qed
  have example: "correct \<longrightarrow> (now = startedAt r \<and> timePerRound (settings l) = Fin 30
               \<and> streak p = 2 \<and> scoreMultiplierSpeed (settings l) \<longrightarrow> r_score res = Fin 1700)"
  proof (intro impI)
    assume c: correct
    assume i: "now = startedAt r \<and> timePerRound (settings l) = Fin 30
               \<and> streak p = 2 \<and> scoreMultiplierSpeed (settings l)"
    have "r_score res = jsadd (jsadd (Fin 1000)
      (mathMax0 (mathFloor (jsmul (jssub (Fin 1)
         (jsdiv (jsdiv (jssub (Fin (of_int now)) (Fin (of_int now))) (Fin 1000)) (Fin 30)))
         (Fin 500)))))
      (jsmul (Fin 2) (Fin 100))"
      using c i by (simp add: res_def pts_def bonus_def te_def)
    then show "r_score res = Fin 1700" by (simp only: points_1700)
  qed
  have near: "correct \<longrightarrow> (\<forall>T. scoreMultiplierSpeed (settings l)
                 \<and> timePerRound (settings l) = Fin (of_int T) \<and> 1 \<le> T \<and> T < 2 ^ 30
                 \<and> 0 \<le> now - startedAt r \<and> now - startedAt r < 2 ^ 40 \<and> streak p < 2 ^ 40
                 \<longrightarrow> (\<exists>pts. r_score res = Fin (of_int pts)
                        \<and> exactPoints (now - startedAt r) T (streak p) - 1 \<le> pts
                        \<and> pts \<le> exactPoints (now - startedAt r) T (streak p)))"
  proof (intro impI allI)
    fix T :: int
    assume c: correct
    assume h: "scoreMultiplierSpeed (settings l)
                 \<and> timePerRound (settings l) = Fin (of_int T) \<and> 1 \<le> T \<and> T < 2 ^ 30
                 \<and> 0 \<le> now - startedAt r \<and> now - startedAt r < 2 ^ 40 \<and> streak p < 2 ^ 40"
    define d where "d = now - startedAt r"
    define ex where "ex = max 0 \<lfloor>(1 - (rat_of_int d / 1000) / of_int T) * 500\<rfloor>"
    have d: "0 \<le> d" "d < 2 ^ 40" and T: "1 \<le> T" "T < 2 ^ 30" and st: "streak p < 2 ^ 40"
      using h by (simp_all add: d_def)
    have "\<bar>now - startedAt r\<bar> < 2 ^ 53" using d by (simp add: d_def)
    then have el: "te = jsdiv (Fin (of_int d)) (Fin 1000)"
      using jssub_int [of now "startedAt r"] by (simp add: te_def d_def)
    from timeBonus_near_exact [OF d T] obtain b
      where b: "mathMax0 (mathFloor (jsmul (jssub (Fin 1)
                 (jsdiv (jsdiv (Fin (of_int d)) (Fin 1000)) (Fin (of_int T)))) (Fin 500)))
              = Fin (of_int b)"
        and b0: "0 \<le> b" and lo: "ex - 1 \<le> b" and hi: "b \<le> ex"
      unfolding ex_def by blast
    have bo: "bonus = Fin (of_int b)" using h b by (simp add: bonus_def el)
    have "(1 - (rat_of_int d / 1000) / of_int T) * 500 \<le> 500"
      using d(1) T(1) by simp
    then have "\<lfloor>(1 - (rat_of_int d / 1000) / of_int T) * 500\<rfloor> \<le> 500"
      by (simp add: floor_le_iff)
    then have ex500: "ex \<le> 500" by (simp add: ex_def)
    have "int (streak p) < 2 ^ 40" using st by (simp flip: of_nat_less_iff)
    then have small: "1000 + b + 100 * int (streak p) < 2 ^ 53" using hi ex500 by simp
    have pts: "r_score res = Fin (of_int (1000 + b + 100 * int (streak p)))"
      using exact c bo b0 small by blast
    have E: "exactPoints (now - startedAt r) T (streak p) = 1000 + ex + 100 * int (streak p)"
      by (simp add: exactPoints_def ex_def d_def)
    show "\<exists>pts. r_score res = Fin (of_int pts)
                        \<and> exactPoints (now - startedAt r) T (streak p) - 1 \<le> pts
                        \<and> pts \<le> exactPoints (now - startedAt r) T (streak p)"
      unfolding E using pts lo hi
      by (intro exI [of _ "1000 + b + 100 * int (streak p)"]) simp
  qed
  show ?thesis
  proof (rule exI [of _ res], rule exI [of _ "putLobby c l' m"], rule exI [of _ l'],
      rule exI [of _ p2], rule exI [of _ te], rule exI [of _ bonus], intro conjI)
    show "submitGuess m sid g now = Inr (Some res, putLobby c l' m)" by (rule ret)
    show "map_of (lobbies (putLobby c l' m)) c = Some l'" by (rule stored(1))
    show "map_of (players l') pid = Some p2" by (rule stored(2))
    show "te = jsdiv (jssub (Fin (of_int now)) (Fin (of_int (startedAt r)))) (Fin 1000)"
      by (rule te_def)
    show "bonus = (if scoreMultiplierSpeed (settings l)
                then mathMax0 (mathFloor
                       (jsmul (jssub (Fin 1) (jsdiv te (timePerRound (settings l)))) (Fin 500)))
                else Fin 0)"
      by (rule bonus_def)
    show "checkGuess g (round_song r) \<longrightarrow>
          r_score res = jsadd (jsadd (Fin 1000) bonus) (jsmul (Fin (of_nat (streak p))) (Fin 100))
          \<and> streak p2 = streak p + 1
          \<and> score p2 = jsadd (score p) (r_score res)
          \<and> (\<forall>b. bonus = Fin (of_int b) \<and> 0 \<le> b \<and> 1000 + b + 100 * int (streak p) < 2 ^ 53
                 \<longrightarrow> r_score res = Fin (of_int (1000 + b + 100 * int (streak p))))
          \<and> (now = startedAt r \<and> timePerRound (settings l) = Fin 30 \<and> streak p = 2
               \<and> scoreMultiplierSpeed (settings l) \<longrightarrow> r_score res = Fin 1700)
          \<and> (\<forall>T. scoreMultiplierSpeed (settings l)
                 \<and> timePerRound (settings l) = Fin (of_int T) \<and> 1 \<le> T \<and> T < 2 ^ 30
                 \<and> 0 \<le> now - startedAt r \<and> now - startedAt r < 2 ^ 40 \<and> streak p < 2 ^ 40
                 \<longrightarrow> (\<exists>pts. r_score res = Fin (of_int pts)
                        \<and> exactPoints (now - startedAt r) T (streak p) - 1 \<le> pts
                        \<and> pts \<le> exactPoints (now - startedAt r) T (streak p)))"
      using right exact example near unfolding correct_def by (intro impI conjI) simp_all
    show "\<not> checkGuess g (round_song r) \<longrightarrow>
          r_score res = Fin 0 \<and> streak p2 = 0 \<and> score p2 = score p"
      using wrong unfolding correct_def .
  qed
qed

theorem submitGuess_scoring_witness:
  "(\<exists>res m'. submitGuess exPlaying ''s1'' ''yesterday'' 1000 = Inr (Some res, m')
       \<and> r_score res = Fin 1700)
   \<and> (\<exists>res m'. submitGuess exPlaying ''s2'' ''let it be'' 4000 = Inr (Some res, m')
       \<and> r_score res = Fin 0)
   \<and> (\<exists>res m'. submitGuess exPlaying ''s1'' ''yesterday'' 2980 = Inr (Some res, m')
       \<and> (r_score res = Fin 1666 \<or> r_score res = Fin 1667))"
proof -
  have good: "checkGuess ''yesterday'' (round_song exRound)"
    unfolding exRound_def by code_simp
  have bad: "\<not> checkGuess ''let it be'' (round_song exRound)"
    unfolding exRound_def by code_simp
  have inst: "1000 = startedAt exRound \<and> timePerRound (settings exPlayingLobby) = Fin 30
      \<and> streak exHost = 2 \<and> scoreMultiplierSpeed (settings exPlayingLobby)"
    by (simp add: exRound_def exPlayingLobby_def exLobby_def DEFAULT_SETTINGS_def exHost_def
        exPlayer_def)
  have "\<exists>res m'. submitGuess exPlaying ''s1'' ''yesterday'' 1000 = Inr (Some res, m')
          \<and> r_score res = Fin 1700"
    using submitGuess_scoring [OF exPlaying_caller(1) exPlaying_round exPlaying_players(1)
        exPlaying_players(3), of "''yesterday''" 1000] good inst
    by blast
  moreover have "\<exists>res m'. submitGuess exPlaying ''s2'' ''let it be'' 4000 = Inr (Some res, m')
          \<and> r_score res = Fin 0"
    using submitGuess_scoring [OF exPlaying_caller(2) exPlaying_round exPlaying_players(2)
        exPlaying_players(4), of "''let it be''" 4000] bad
    by blast
  moreover have "\<exists>res m'. submitGuess exPlaying ''s1'' ''yesterday'' 2980 = Inr (Some res, m')
          \<and> (r_score res = Fin 1666 \<or> r_score res = Fin 1667)"
  proof -
    from submitGuess_scoring [OF exPlaying_caller(1) exPlaying_round exPlaying_players(1)
        exPlaying_players(3), of "''yesterday''" 2980]
    obtain res m' where ret: "submitGuess exPlaying ''s1'' ''yesterday'' 2980 = Inr (Some res, m')"
      and cg: "checkGuess ''yesterday'' (round_song exRound) \<longrightarrow>
          (\<forall>T. scoreMultiplierSpeed (settings exPlayingLobby)
                 \<and> timePerRound (settings exPlayingLobby) = Fin (of_int T) \<and> 1 \<le> T \<and> T < 2 ^ 30
                 \<and> 0 \<le> 2980 - startedAt exRound \<and> 2980 - startedAt exRound < 2 ^ 40
                 \<and> streak exHost < 2 ^ 40
                 \<longrightarrow> (\<exists>pts. r_score res = Fin (of_int pts)
                        \<and> exactPoints (2980 - startedAt exRound) T (streak exHost) - 1 \<le> pts
                        \<and> pts \<le> exactPoints (2980 - startedAt exRound) T (streak exHost)))"
      by blast
    have i: "scoreMultiplierSpeed (settings exPlayingLobby)
                 \<and> timePerRound (settings exPlayingLobby) = Fin (of_int 30) \<and> 1 \<le> (30::int)
                 \<and> (30::int) < 2 ^ 30
                 \<and> 0 \<le> 2980 - startedAt exRound \<and> 2980 - startedAt exRound < 2 ^ 40
                 \<and> streak exHost < 2 ^ 40"
      using inst by simp
    have "\<lfloor>(1 - (1980 / 1000) / 30) * 500 :: rat\<rfloor> = 467" by (rule floor_unique) simp_all
    then have E: "exactPoints (2980 - startedAt exRound) 30 (streak exHost) = 1667"
      using inst by (simp add: exactPoints_def)
    from cg [rule_format, OF good i] obtain pts where
      "r_score res = Fin (of_int pts)" "1667 - 1 \<le> pts" "pts \<le> 1667"
      unfolding E by blast
    then have "r_score res = Fin 1666 \<or> r_score res = Fin 1667"
      by (cases "pts = 1666") auto
    then show ?thesis using ret by blast
  qed
  ultimately show ?thesis by simp
qed

text \<open>
  C1 as stated fails: the formula of the claim, evaluated exactly, is not what the code
  awards. The host (streak 2) guesses correctly 1980 milliseconds into a round of 30
  seconds. Exactly, \<open>(1 - 1.98 / 30) * 500 = 467\<close> and the points are 1667. In double
  arithmetic the product is just below 467, its floor is 466, and the code awards 1666.
\<close>

theorem submitGuess_scoring_counterexample:
  "map_option r_correct (returned (submitGuess exPlaying ''s1'' ''yesterday'' 2980)) = Some True
   \<and> map_option r_score (returned (submitGuess exPlaying ''s1'' ''yesterday'' 2980))
       = Some (Fin 1666)
   \<and> startedAt exRound = 1000 \<and> timePerRound (settings exPlayingLobby) = Fin 30
   \<and> scoreMultiplierSpeed (settings exPlayingLobby) \<and> streak exHost = 2
   \<and> exactPoints (2980 - startedAt exRound) 30 (streak exHost) = 1667"
proof -
  have good: "checkGuess ''yesterday'' (round_song exRound)"
    unfolding exRound_def by code_simp
  have inst: "startedAt exRound = 1000 \<and> timePerRound (settings exPlayingLobby) = Fin 30
      \<and> scoreMultiplierSpeed (settings exPlayingLobby) \<and> streak exHost = 2"
    by (simp add: exRound_def exPlayingLobby_def exLobby_def DEFAULT_SETTINGS_def exHost_def
        exPlayer_def)
  have el: "jssub (Fin 2980) (Fin 1000) = Fin 1980"
    using jssub_int [of 2980 1000] by simp
  have s: "jsmul (Fin 2) (Fin 100) = Fin 200"
    using jsmul_int [of 2 100] by simp
  have t: "jsadd (Fin 1000) (Fin 466) = Fin 1466"
    using jsadd_int [of 1000 466] by simp
  have u: "jsadd (Fin 1466) (Fin 200) = Fin 1666"
    using jsadd_int [of 1466 200] by simp
  have pts: "jsadd (jsadd (Fin 1000)
        (timeBonus (settings exPlayingLobby) (jsdiv (jssub (Fin 2980) (Fin 1000)) (Fin 1000))))
        (jsmul (Fin (of_nat (streak exHost))) (Fin 100)) = Fin 1666"
    using inst by (simp add: timeBonus_def el bonus_1980 s t u)
  have code: "map_option r_correct (returned (submitGuess exPlaying ''s1'' ''yesterday'' 2980))
        = Some True
      \<and> map_option r_score (returned (submitGuess exPlaying ''s1'' ''yesterday'' 2980))
        = Some (Fin 1666)"
    unfolding submitGuess_accepted [OF exPlaying_caller(1) exPlaying_round exPlaying_players(1)
        exPlaying_players(3)]
    using good inst pts
    by (simp add: Let_def returned_def)
  have "\<lfloor>(1 - (1980 / 1000) / 30) * 500 :: rat\<rfloor> = 467" by (rule floor_unique) simp_all
  then have formula: "exactPoints (2980 - startedAt exRound) 30 (streak exHost) = 1667"
    using inst by (simp add: exactPoints_def)
  show ?thesis using code inst formula by simp
qed

subsection \<open>leaveLobby\<close>

lemma map_of_dropSocket:
  "map_of (playerToLobby (dropSocket sid m)) = (map_of (playerToLobby m))(sid := None)"
  "map_of (playerIds (dropSocket sid m)) = (map_of (playerIds m))(sid := None)"
  "lobbies (dropSocket sid m) = lobbies m"
  by (simp_all add: dropSocket_def delete_conv')

lemma leaveLobby_found:
  assumes "map_of (playerToLobby m) sid = Some c" and "map_of (playerIds m) sid = Some pid"
    and "c \<noteq> []" and "pid \<noteq> []" and "map_of (lobbies m) c = Some l"
  shows "leaveLobby m sid =
     (let was = (case map_of (players l) pid of None \<Rightarrow> False | Some p \<Rightarrow> isHost p);
          ps = AList.delete pid (players l);
          m1 = dropSocket sid m
      in case ps of
           [] \<Rightarrow> (Some \<lparr>left_lobby = None, left_playerId = pid, wasHost = was\<rparr>,
                  m1\<lparr>lobbies := AList.delete c (lobbies m1)\<rparr>)
         | (newHostId, newHost) # others \<Rightarrow>
             let l' = (if was
                       then l\<lparr>players := (newHostId, newHost\<lparr>isHost := True\<rparr>) # others,
                              hostId := newHostId\<rparr>
                       else l\<lparr>players := ps\<rparr>)
             in (Some \<lparr>left_lobby = Some l', left_playerId = pid, wasHost = was\<rparr>,
                 putLobby c l' m1))"
  using assms by (simp add: leaveLobby_def)

lemma only_host_after_delete:
  assumes "distinct (map fst ps)" and "\<forall>(k, q) \<in> set ps. isHost q \<longrightarrow> k = pid"
  shows "\<forall>(k, q) \<in> set (AList.delete pid ps). \<not> isHost q"
  using assms by (auto simp: AList.delete_eq)

text \<open>
  C5. When the socket is indexed to a lobby that exists, \<open>leaveLobby\<close> removes the
  player from the lobby and both index entries of the socket. If no player is left the
  lobby is deleted, and joining by its code then fails with \<open>Lobby not found\<close>.
  Otherwise the remaining players keep their order; if the leaver was host, the first of
  them gets \<open>isHost\<close> and \<open>hostId\<close> becomes that player's id, and when the leaver was
  the only host that player is the only host afterwards.
\<close>

theorem leaveLobby_effect:
  assumes "map_of (playerToLobby m) sid = Some c" and "map_of (playerIds m) sid = Some pid"
    and "c \<noteq> []" and "pid \<noteq> []" and "map_of (lobbies m) c = Some l"
  shows "\<exists>res m'.
     leaveLobby m sid = (Some res, m') \<and> left_playerId res = pid
     \<and> (wasHost res \<longleftrightarrow> (\<exists>q. map_of (players l) pid = Some q \<and> isHost q))
     \<and> map_of (playerToLobby m') sid = None \<and> map_of (playerIds m') sid = None
     \<and> (AList.delete pid (players l) = [] \<longrightarrow>
          left_lobby res = None \<and> map_of (lobbies m') c = None
          \<and> (\<forall>c' s n a i. toUpperCase c' = c \<longrightarrow>
                joinLobby m' c' s n a i = Inl (Error ''Lobby not found'')))
     \<and> (AList.delete pid (players l) \<noteq> [] \<longrightarrow>
          (\<exists>l'. left_lobby res = Some l' \<and> map_of (lobbies m') c = Some l'
             \<and> map fst (players l') = map fst (AList.delete pid (players l))
             \<and> pid \<notin> set (map fst (players l'))
             \<and> (wasHost res \<longrightarrow>
                   hostId l' = fst (hd (players l')) \<and> isHost (snd (hd (players l')))
                   \<and> tl (players l') = tl (AList.delete pid (players l))
                   \<and> (distinct (map fst (players l))
                        \<and> (\<forall>(k, q) \<in> set (players l). isHost q \<longrightarrow> k = pid) \<longrightarrow>
                       (\<forall>(k, q) \<in> set (players l'). isHost q \<longleftrightarrow> k = hostId l')))
             \<and> (\<not> wasHost res \<longrightarrow>
                   players l' = AList.delete pid (players l) \<and> hostId l' = hostId l)))"
proof -
  define was where "was = (case map_of (players l) pid of None \<Rightarrow> False | Some p \<Rightarrow> isHost p)"
  define m1 where "m1 = dropSocket sid m"
  have was_iff: "was \<longleftrightarrow> (\<exists>q. map_of (players l) pid = Some q \<and> isHost q)"
    by (simp add: was_def split: option.split)
  have notin: "pid \<notin> set (map fst (AList.delete pid (players l)))"
    by (simp add: AList.delete_eq image_iff)
  show ?thesis
  proof (cases "AList.delete pid (players l)")
    case Nil
    define res where "res = \<lparr>left_lobby = None, left_playerId = pid, wasHost = was\<rparr>"
    define m' where "m' = m1\<lparr>lobbies := AList.delete c (lobbies m1)\<rparr>"
    have f1: "leaveLobby m sid = (Some res, m')"
      unfolding leaveLobby_found [OF assms] using Nil
      by (simp add: Let_def res_def m'_def m1_def was_def)
    have f2: "left_playerId res = pid" by (simp add: res_def)
    have f3: "wasHost res \<longleftrightarrow> (\<exists>q. map_of (players l) pid = Some q \<and> isHost q)"
      using was_iff by (simp add: res_def)
    have f4: "map_of (playerToLobby m') sid = None"
      by (simp add: m'_def m1_def map_of_dropSocket)
    have f5: "map_of (playerIds m') sid = None"
      by (simp add: m'_def m1_def map_of_dropSocket)
    have gone: "map_of (lobbies m') c = None"
      by (simp add: m'_def m1_def map_of_dropSocket delete_conv')
    have f6: "AList.delete pid (players l) = [] \<longrightarrow>
          left_lobby res = None \<and> map_of (lobbies m') c = None
          \<and> (\<forall>c' s n a i. toUpperCase c' = c \<longrightarrow>
                joinLobby m' c' s n a i = Inl (Error ''Lobby not found''))"
      using gone by (simp add: res_def joinLobby_def)
    have f7: "AList.delete pid (players l) \<noteq> [] \<longrightarrow>
          (\<exists>l'. left_lobby res = Some l' \<and> map_of (lobbies m') c = Some l'
             \<and> map fst (players l') = map fst (AList.delete pid (players l))
             \<and> pid \<notin> set (map fst (players l'))
             \<and> (wasHost res \<longrightarrow>
                   hostId l' = fst (hd (players l')) \<and> isHost (snd (hd (players l')))
                   \<and> tl (players l') = tl (AList.delete pid (players l))
                   \<and> (distinct (map fst (players l))
                        \<and> (\<forall>(k, q) \<in> set (players l). isHost q \<longrightarrow> k = pid) \<longrightarrow>
                       (\<forall>(k, q) \<in> set (players l'). isHost q \<longleftrightarrow> k = hostId l')))
             \<and> (\<not> wasHost res \<longrightarrow>
                   players l' = AList.delete pid (players l) \<and> hostId l' = hostId l))"
      using Nil by simp
    from f1 f2 f3 f4 f5 f6 f7 show ?thesis by blast
  next
    case (Cons kp others)
    obtain newHostId newHost where kp: "kp = (newHostId, newHost)" by (cases kp)
    define l' where "l' = (if was
                       then l\<lparr>players := (newHostId, newHost\<lparr>isHost := True\<rparr>) # others,
                              hostId := newHostId\<rparr>
                       else l\<lparr>players := AList.delete pid (players l)\<rparr>)"
    define res where "res = \<lparr>left_lobby = Some l', left_playerId = pid, wasHost = was\<rparr>"
    define m' where "m' = putLobby c l' m1"
    have f1: "leaveLobby m sid = (Some res, m')"
      unfolding leaveLobby_found [OF assms] using Cons kp
      by (simp add: Let_def res_def m'_def m1_def was_def l'_def)
    have f2: "left_playerId res = pid" by (simp add: res_def)
    have f3: "wasHost res \<longleftrightarrow> (\<exists>q. map_of (players l) pid = Some q \<and> isHost q)"
      using was_iff by (simp add: res_def)
    have f4: "map_of (playerToLobby m') sid = None"
      by (simp add: m'_def m1_def map_of_dropSocket putLobby_index)
    have f5: "map_of (playerIds m') sid = None"
      by (simp add: m'_def m1_def map_of_dropSocket putLobby_index)
    have f6: "AList.delete pid (players l) = [] \<longrightarrow>
          left_lobby res = None \<and> map_of (lobbies m') c = None
          \<and> (\<forall>c' s n a i. toUpperCase c' = c \<longrightarrow>
                joinLobby m' c' s n a i = Inl (Error ''Lobby not found''))"
      using Cons by simp
    have g1: "left_lobby res = Some l'" by (simp add: res_def)
    have g2: "map_of (lobbies m') c = Some l'" by (simp add: m'_def map_of_putLobby)
    have g3: "map fst (players l') = map fst (AList.delete pid (players l))"
      using Cons kp by (simp add: l'_def)
    have g4: "pid \<notin> set (map fst (players l'))"
      using notin g3 by simp
    have only: "distinct (map fst (players l))
        \<and> (\<forall>(k, q) \<in> set (players l). isHost q \<longrightarrow> k = pid)
        \<Longrightarrow> newHostId \<notin> set (map fst others) \<and> (\<forall>(k, q) \<in> set others. \<not> isHost q)"
    proof -
      assume a: "distinct (map fst (players l))
          \<and> (\<forall>(k, q) \<in> set (players l). isHost q \<longrightarrow> k = pid)"
      then have "distinct (map fst (AList.delete pid (players l)))"
        by (simp add: distinct_delete)
      moreover have "\<forall>(k, q) \<in> set (AList.delete pid (players l)). \<not> isHost q"
        using a by (intro only_host_after_delete) simp_all
      ultimately show ?thesis using Cons kp by auto
    qed
    have g5: "wasHost res \<longrightarrow>
                   hostId l' = fst (hd (players l')) \<and> isHost (snd (hd (players l')))
                   \<and> tl (players l') = tl (AList.delete pid (players l))
                   \<and> (distinct (map fst (players l))
                        \<and> (\<forall>(k, q) \<in> set (players l). isHost q \<longrightarrow> k = pid) \<longrightarrow>
                       (\<forall>(k, q) \<in> set (players l'). isHost q \<longleftrightarrow> k = hostId l'))"
    proof (intro impI conjI)
      assume w: "wasHost res"
      then have l'_eq: "l' = l\<lparr>players := (newHostId, newHost\<lparr>isHost := True\<rparr>) # others,
                              hostId := newHostId\<rparr>"
        by (simp add: res_def l'_def)
      show "hostId l' = fst (hd (players l'))" by (simp add: l'_eq)
      show "isHost (snd (hd (players l')))" by (simp add: l'_eq)
      show "tl (players l') = tl (AList.delete pid (players l))"
        using Cons by (simp add: l'_eq)
      assume "distinct (map fst (players l))
          \<and> (\<forall>(k, q) \<in> set (players l). isHost q \<longrightarrow> k = pid)"
      from only [OF this] show "\<forall>(k, q) \<in> set (players l'). isHost q \<longleftrightarrow> k = hostId l'"
        by (force simp: l'_eq)
    qed
    have g6: "\<not> wasHost res \<longrightarrow>
                   players l' = AList.delete pid (players l) \<and> hostId l' = hostId l"
      by (simp add: res_def l'_def)
    have f7: "AList.delete pid (players l) \<noteq> [] \<longrightarrow>
          (\<exists>l'. left_lobby res = Some l' \<and> map_of (lobbies m') c = Some l'
             \<and> map fst (players l') = map fst (AList.delete pid (players l))
             \<and> pid \<notin> set (map fst (players l'))
             \<and> (wasHost res \<longrightarrow>
                   hostId l' = fst (hd (players l')) \<and> isHost (snd (hd (players l')))
                   \<and> tl (players l') = tl (AList.delete pid (players l))
                   \<and> (distinct (map fst (players l))
                        \<and> (\<forall>(k, q) \<in> set (players l). isHost q \<longrightarrow> k = pid) \<longrightarrow>
                       (\<forall>(k, q) \<in> set (players l'). isHost q \<longleftrightarrow> k = hostId l')))
             \<and> (\<not> wasHost res \<longrightarrow>
                   players l' = AList.delete pid (players l) \<and> hostId l' = hostId l))"
      using g1 g2 g3 g4 g5 g6 by blast
    from f1 f2 f3 f4 f5 f6 f7 show ?thesis by blast
  qed
qed
theorem leaveLobby_effect_witness:
  "(\<exists>res m'. leaveLobby exManager ''s1'' = (Some res, m') \<and> left_lobby res = None
       \<and> map_of (lobbies m') ''ABCDE'' = None)
   \<and> (\<exists>res m' l'. leaveLobby exPlaying ''s1'' = (Some res, m') \<and> left_lobby res = Some l'
       \<and> wasHost res \<and> hostId l' = ''p2'' \<and> map fst (players l') = [''p2''])"
proof -
  let ?l = "exLobby [(''p1'', exPlayer ''p1'' ''s1'' True True)] []"
  have a1: "map_of (playerToLobby exManager) ''s1'' = Some ''ABCDE''"
    and a2: "map_of (playerIds exManager) ''s1'' = Some ''p1''"
    and a3: "map_of (lobbies exManager) ''ABCDE'' = Some ?l"
    by (simp_all add: exManager_def)
  have a4: "AList.delete ''p1'' (players ?l) = []"
    by (simp add: exLobby_def)
  have first: "\<exists>res m'. leaveLobby exManager ''s1'' = (Some res, m') \<and> left_lobby res = None
       \<and> map_of (lobbies m') ''ABCDE'' = None"
    using leaveLobby_effect [OF a1 a2 _ _ a3] a4 by fastforce
  have b1: "map_of (playerToLobby exPlaying) ''s1'' = Some ''ABCDE''"
    and b2: "map_of (playerIds exPlaying) ''s1'' = Some ''p1''"
    and b3: "map_of (lobbies exPlaying) ''ABCDE'' = Some exPlayingLobby"
    by (simp_all add: exPlaying_def)
  have b4: "AList.delete ''p1'' (players exPlayingLobby) = [(''p2'', exGuest)]"
    by (simp add: exPlayingLobby_def exLobby_def)
  have b5: "\<exists>q. map_of (players exPlayingLobby) ''p1'' = Some q \<and> isHost q"
    by (simp add: exPlaying_players exHost_def exPlayer_def)
  obtain res m' where r: "leaveLobby exPlaying ''s1'' = (Some res, m')"
    and w: "wasHost res \<longleftrightarrow> (\<exists>q. map_of (players exPlayingLobby) ''p1'' = Some q \<and> isHost q)"
    and rest: "AList.delete ''p1'' (players exPlayingLobby) \<noteq> [] \<longrightarrow>
          (\<exists>l'. left_lobby res = Some l'
             \<and> map fst (players l') = map fst (AList.delete ''p1'' (players exPlayingLobby))
             \<and> (wasHost res \<longrightarrow> hostId l' = fst (hd (players l'))))"
    using leaveLobby_effect [OF b1 b2 _ _ b3] by fastforce
  from rest b4 obtain l' where l': "left_lobby res = Some l'"
    and keys: "map fst (players l') = [''p2'']"
    and host: "wasHost res \<longrightarrow> hostId l' = fst (hd (players l'))"
    by auto
  have wh: "wasHost res" using w b5 by simp
  from keys have "fst (hd (players l')) = ''p2''" by (cases "players l'") auto
  then have hp: "hostId l' = ''p2''" using host wh by simp
  have second: "\<exists>res m' l'. leaveLobby exPlaying ''s1'' = (Some res, m')
       \<and> left_lobby res = Some l' \<and> wasHost res \<and> hostId l' = ''p2''
       \<and> map fst (players l') = [''p2'']"
    by (rule exI [of _ res], rule exI [of _ m'], rule exI [of _ l'])
      (simp add: r l' wh keys hp)
  show ?thesis using first second by simp
qed

subsection \<open>generateCode\<close>

lemma codeFrom_eq:
  "codeFrom rnd k = charAt chars (rnd k) @ charAt chars (rnd (k + 1)) @ charAt chars (rnd (k + 2))
     @ charAt chars (rnd (k + 3)) @ charAt chars (rnd (k + 4))"
  by (simp add: codeFrom_def upt_rec [of 0] upt_rec [of 1] upt_rec [of 2] upt_rec [of 3]
      upt_rec [of 4] numeral_2_eq_2 numeral_3_eq_3 eval_nat_numeral)

lemma charAt_in_range: "i < length s \<Longrightarrow> charAt s i = [s ! i]"
  by (simp add: charAt_def)

lemma codeFrom_shape:
  assumes "\<forall>i. rnd i < length chars"
  shows "length (codeFrom rnd k) = 5 \<and> set (codeFrom rnd k) \<subseteq> set chars"
  using assms by (simp add: codeFrom_eq charAt_in_range)

lemma generateCode_returns_attempt:
  assumes "generateCode ls rnd k = Some y"
  shows "\<exists>n. y = (codeFrom rnd (k + 5 * n), k + 5 * n + 5)
           \<and> map_of ls (codeFrom rnd (k + 5 * n)) = None"
proof (rule generateCode.raw_induct
    [where P = "\<lambda>ls rnd k y. \<exists>n. y = (codeFrom rnd (k + 5 * n), k + 5 * n + 5)
                  \<and> map_of ls (codeFrom rnd (k + 5 * n)) = None", OF _ assms],
    goal_cases)
  case (1 gc ls rnd k y)
  show ?case
  proof (cases "map_of ls (codeFrom rnd k) = None")
    case True
    with 1(2) have "y = (codeFrom rnd (k + 5 * 0), k + 5 * 0 + 5)"
      by (simp add: Let_def)
    with True show ?thesis by (intro exI [of _ 0]) simp
  next
    case False
    with 1(2) have "gc ls rnd (k + 5) = Some y" by (simp add: Let_def)
    from 1(1) [OF this] obtain n where
      "y = (codeFrom rnd (k + 5 + 5 * n), k + 5 + 5 * n + 5)
         \<and> map_of ls (codeFrom rnd (k + 5 + 5 * n)) = None"
      by blast
    then show ?thesis by (intro exI [of _ "Suc n"]) (simp add: add.assoc)
  qed
qed

lemma generateCode_finds:
  "map_of ls (codeFrom rnd (k + 5 * n)) = None \<Longrightarrow> generateCode ls rnd k \<noteq> None"
proof (induction n arbitrary: k)
  case 0
  then show ?case by (subst generateCode.simps) (simp add: Let_def)
next
  case (Suc n)
  have "map_of ls (codeFrom rnd (k + 5 + 5 * n)) = None"
    using Suc.prems by (simp add: add.assoc)
  from Suc.IH [OF this] show ?case
    by (subst generateCode.simps) (simp add: Let_def)
qed

text \<open>
  C8. The alphabet has 32 distinct characters, none of them I, O, 0 or 1. With random
  indices inside the alphabet, a code that \<open>generateCode\<close> returns has 5 characters of
  the alphabet and is the key of no lobby. The first attempt is returned when it is
  free; when it collides the method starts over with fresh draws; and it does return
  whenever some later attempt is free.
\<close>

theorem generateCode_result:
  assumes "\<forall>i. rnd i < length chars"
  shows "length chars = 32 \<and> distinct chars \<and> set chars \<inter> set ''IO01'' = {}
    \<and> (\<forall>c k'. generateCode ls rnd k = Some (c, k') \<longrightarrow>
          length c = 5 \<and> set c \<subseteq> set chars \<and> map_of ls c = None)
    \<and> (map_of ls (codeFrom rnd k) = None \<longrightarrow>
          generateCode ls rnd k = Some (codeFrom rnd k, k + 5))
    \<and> (map_of ls (codeFrom rnd k) \<noteq> None \<longrightarrow>
          generateCode ls rnd k = generateCode ls rnd (k + 5))
    \<and> ((\<exists>n. map_of ls (codeFrom rnd (k + 5 * n)) = None) \<longrightarrow> generateCode ls rnd k \<noteq> None)"
proof (intro conjI allI impI)
  show "length chars = 32" by (simp add: chars_def)
  show "distinct chars" by (simp add: chars_def)
  show "set chars \<inter> set ''IO01'' = {}" by (simp add: chars_def)
next
  fix c k'
  assume "generateCode ls rnd k = Some (c, k')"
  from generateCode_returns_attempt [OF this] obtain n where
    n: "c = codeFrom rnd (k + 5 * n)" "map_of ls (codeFrom rnd (k + 5 * n)) = None"
    by auto
  show "length c = 5" and "set c \<subseteq> set chars" and "map_of ls c = None"
    using n codeFrom_shape [OF assms, of "k + 5 * n"] by simp_all
next
  assume "map_of ls (codeFrom rnd k) = None"
  then show "generateCode ls rnd k = Some (codeFrom rnd k, k + 5)"
    by (subst generateCode.simps) (simp add: Let_def)
next
  assume "map_of ls (codeFrom rnd k) \<noteq> None"
  then show "generateCode ls rnd k = generateCode ls rnd (k + 5)"
    by (subst generateCode.simps) (simp add: Let_def)
next
  assume "\<exists>n. map_of ls (codeFrom rnd (k + 5 * n)) = None"
  then show "generateCode ls rnd k \<noteq> None"
    using generateCode_finds by blast
qed

theorem generateCode_result_witness:
  "generateCode [(''AAAAA'', exPlayingLobby)] exDraws 0 = Some (''BBBBB'', 10)
   \<and> length ''BBBBB'' = 5 \<and> set ''BBBBB'' \<subseteq> set chars"
proof -
  let ?ls = "[(''AAAAA'', exPlayingLobby)]"
  have draws: "\<forall>i. exDraws i < length chars"
    by (simp add: exDraws_def chars_def)
  have c0: "codeFrom exDraws 0 = ''AAAAA''"
    by (simp add: codeFrom_eq charAt_def exDraws_def chars_def)
  have c5: "codeFrom exDraws 5 = ''BBBBB''"
    by (simp add: codeFrom_eq charAt_def exDraws_def chars_def)
  have taken: "map_of ?ls (codeFrom exDraws 0) \<noteq> None" by (simp add: c0)
  have free: "map_of ?ls (codeFrom exDraws (0 + 5)) = None" by (simp add: c5)
  note t0 = generateCode_result [OF draws, of ?ls 0]
  note t5 = generateCode_result [OF draws, of ?ls "0 + 5"]
  have "generateCode ?ls exDraws 0 = generateCode ?ls exDraws (0 + 5)"
    using t0 taken by blast
  moreover have "generateCode ?ls exDraws (0 + 5) = Some (codeFrom exDraws (0 + 5), 0 + 5 + 5)"
    using t5 free by blast
  ultimately have r: "generateCode ?ls exDraws 0 = Some (''BBBBB'', 10)"
    by (simp add: c5)
  then have "length ''BBBBB'' = 5 \<and> set ''BBBBB'' \<subseteq> set chars"
    using t0 by blast
  with r show ?thesis by simp
qed

subsection \<open>startRound\<close>

lemma availableSongs_mem:
  "s \<in> set (availableSongs l) \<longleftrightarrow>
     s \<in> set (songs l) \<and> song_id s \<notin> set (map (\<lambda>r. song_id (round_song r)) (roundHistory l))"
  by (auto simp: availableSongs_def Let_def)

lemma availableSongs_empty:
  "availableSongs l = [] \<longleftrightarrow>
     (\<forall>s \<in> set (songs l). song_id s \<in> set (map (\<lambda>r. song_id (round_song r)) (roundHistory l)))"
  by (auto simp: availableSongs_def Let_def filter_empty_conv)

lemma forEachPlayer_fields:
  "players (forEachPlayer f l) = map (\<lambda>(k, p). (k, f p)) (players l)"
  "roundHistory (forEachPlayer f l) = roundHistory l"
  "settings (forEachPlayer f l) = settings l"
  "state (forEachPlayer f l) = state l"
  "songs (forEachPlayer f l) = songs l"
  "currentRound (forEachPlayer f l) = currentRound l"
  "hostId (forEachPlayer f l) = hostId l"
  by (simp_all add: forEachPlayer_def)

lemma startRound_started:
  assumes "map_of (lobbies m) c = Some l" and "state l = Playing"
    and "rat_of_nat (length (roundHistory l)) + 1 \<le> rounds (settings l)"
    and "pick < length (availableSongs l)"
  shows "startRound m c pick sh1 sh2 now =
     (let s = availableSongs l ! pick;
          l1 = forEachPlayer resetGuessState l;
          r = \<lparr>roundNumber = length (roundHistory l) + 1, round_song = s, startedAt = now,
               phase = PhasePlaying, guesses = [],
               gridOptions = makeGridOptions l1 s sh1 sh2\<rparr>
      in Inr (Some r, putLobby c (l1\<lparr>currentRound := Some r\<rparr>) m))"
  using assms by (auto simp: startRound_def Let_def)

lemma startRound_Some:
  assumes "startRound m c pick sh1 sh2 now = Inr (Some r, m')"
  shows "\<exists>l. map_of (lobbies m) c = Some l \<and> state l = Playing
           \<and> rat_of_nat (length (roundHistory l)) + 1 \<le> rounds (settings l)
           \<and> pick < length (availableSongs l)"
  using assms
  by (auto simp: startRound_def Let_def split: option.splits if_splits)

text \<open>
  C4. \<open>startRound\<close> returns null when the code names no lobby, when the lobby is not
  playing, when the history already has \<open>settings.rounds\<close> rounds or more, and when every
  song of the pool has its id in the history. When it returns a round, the round's song
  is a song of the pool whose id is not in the history, the round is the lobby's current
  round with phase playing, and every player has \<open>hasGuessed\<close> and \<open>lastGuessCorrect\<close>
  false and \<open>roundScore\<close> 0. It does return a round when the lobby is playing, a round
  is left to play and the drawn index is inside the unused songs.
\<close>

theorem startRound_effect:
  "(map_of (lobbies m) c = None \<longrightarrow> startRound m c pick sh1 sh2 now = Inr (None, m))
   \<and> (\<forall>l. map_of (lobbies m) c = Some l
          \<and> (state l \<noteq> Playing
              \<or> rounds (settings l) \<le> rat_of_nat (length (roundHistory l))
              \<or> (\<forall>s \<in> set (songs l).
                    song_id s \<in> set (map (\<lambda>r. song_id (round_song r)) (roundHistory l))))
        \<longrightarrow> startRound m c pick sh1 sh2 now = Inr (None, m))
   \<and> (\<forall>r m'. startRound m c pick sh1 sh2 now = Inr (Some r, m') \<longrightarrow>
        (\<exists>l l'. map_of (lobbies m) c = Some l \<and> map_of (lobbies m') c = Some l'
           \<and> currentRound l' = Some r \<and> phase r = PhasePlaying \<and> guesses r = []
           \<and> roundNumber r = length (roundHistory l) + 1
           \<and> round_song r \<in> set (songs l)
           \<and> song_id (round_song r)
                \<notin> set (map (\<lambda>r. song_id (round_song r)) (roundHistory l))
           \<and> roundHistory l' = roundHistory l
           \<and> map fst (players l') = map fst (players l)
           \<and> (\<forall>p \<in> set (map snd (players l')).
                 \<not> hasGuessed p \<and> \<not> lastGuessCorrect p \<and> roundScore p = Fin 0)))
   \<and> (\<forall>l. map_of (lobbies m) c = Some l \<and> state l = Playing
          \<and> rat_of_nat (length (roundHistory l)) + 1 \<le> rounds (settings l)
          \<and> pick < length (availableSongs l)
        \<longrightarrow> (\<exists>r m'. startRound m c pick sh1 sh2 now = Inr (Some r, m')
               \<and> round_song r = availableSongs l ! pick))"
proof (intro conjI allI impI)
  assume "map_of (lobbies m) c = None"
  then show "startRound m c pick sh1 sh2 now = Inr (None, m)"
    by (simp add: startRound_def)
next
  fix l
  assume h: "map_of (lobbies m) c = Some l
          \<and> (state l \<noteq> Playing
              \<or> rounds (settings l) \<le> rat_of_nat (length (roundHistory l))
              \<or> (\<forall>s \<in> set (songs l).
                    song_id s \<in> set (map (\<lambda>r. song_id (round_song r)) (roundHistory l))))"
  then have "state l \<noteq> Playing \<or> rounds (settings l) < rat_of_nat (length (roundHistory l)) + 1
               \<or> availableSongs l = []"
    unfolding availableSongs_empty by linarith
  with h show "startRound m c pick sh1 sh2 now = Inr (None, m)"
    by (auto simp: startRound_def Let_def)
next
  fix r m'
  assume s: "startRound m c pick sh1 sh2 now = Inr (Some r, m')"
  from startRound_Some [OF s] obtain l where l: "map_of (lobbies m) c = Some l"
    "state l = Playing" "rat_of_nat (length (roundHistory l)) + 1 \<le> rounds (settings l)"
    "pick < length (availableSongs l)"
    by blast
  define l' where "l' = (forEachPlayer resetGuessState l)\<lparr>currentRound := Some r\<rparr>"
  have eq: "startRound m c pick sh1 sh2 now = Inr (Some r, putLobby c l' m)"
    and song: "round_song r = availableSongs l ! pick"
    and ph: "phase r = PhasePlaying" and gs: "guesses r = []"
    and num: "roundNumber r = length (roundHistory l) + 1"
    using s unfolding startRound_started [OF l] l'_def by (auto simp: Let_def)
  have m': "m' = putLobby c l' m" using s eq by simp
  have mem: "round_song r \<in> set (availableSongs l)"
    using l(4) song by simp
  have g1: "map_of (lobbies m') c = Some l'" by (simp add: m' map_of_putLobby)
  have g2: "currentRound l' = Some r" by (simp add: l'_def)
  have g3: "round_song r \<in> set (songs l)"
    and g4: "song_id (round_song r) \<notin> set (map (\<lambda>r. song_id (round_song r)) (roundHistory l))"
    using mem unfolding availableSongs_mem by simp_all
  have g5: "roundHistory l' = roundHistory l" by (simp add: l'_def forEachPlayer_fields)
  have g6: "map fst (players l') = map fst (players l)"
    by (simp add: l'_def forEachPlayer_fields case_prod_beta)
  have g7: "\<forall>p \<in> set (map snd (players l')).
              \<not> hasGuessed p \<and> \<not> lastGuessCorrect p \<and> roundScore p = Fin 0"
    by (auto simp: l'_def forEachPlayer_fields resetGuessState_def)
  show "\<exists>l l'. map_of (lobbies m) c = Some l \<and> map_of (lobbies m') c = Some l'
           \<and> currentRound l' = Some r \<and> phase r = PhasePlaying \<and> guesses r = []
           \<and> roundNumber r = length (roundHistory l) + 1
           \<and> round_song r \<in> set (songs l)
           \<and> song_id (round_song r)
                \<notin> set (map (\<lambda>r. song_id (round_song r)) (roundHistory l))
           \<and> roundHistory l' = roundHistory l
           \<and> map fst (players l') = map fst (players l)
           \<and> (\<forall>p \<in> set (map snd (players l')).
                 \<not> hasGuessed p \<and> \<not> lastGuessCorrect p \<and> roundScore p = Fin 0)"
    by (intro exI [of _ l] exI [of _ l'] conjI) fact+
next
  fix l
  assume h: "map_of (lobbies m) c = Some l \<and> state l = Playing
          \<and> rat_of_nat (length (roundHistory l)) + 1 \<le> rounds (settings l)
          \<and> pick < length (availableSongs l)"
  note eq = startRound_started [of m c l pick sh1 sh2 now]
  from h eq show "\<exists>r m'. startRound m c pick sh1 sh2 now = Inr (Some r, m')
               \<and> round_song r = availableSongs l ! pick"
    by (simp add: Let_def)
qed
theorem startRound_effect_witness:
  "(\<exists>r m'. startRound exPlaying ''ABCDE'' 1 id id 5000 = Inr (Some r, m')
       \<and> song_id (round_song r) = ''b'')
   \<and> startRound exManager ''ABCDE'' 0 id id 5000 = Inr (None, exManager)"
proof -
  have av: "availableSongs exPlayingLobby
      = [exSong ''a'' ''Yesterday'' ''The Beatles'', exSong ''b'' ''Let It Be'' ''The Beatles'',
         exSong ''c'' ''Help'' ''The Beatles'']"
    by (simp add: availableSongs_def exPlayingLobby_def exLobby_def)
  have a: "map_of (lobbies exPlaying) ''ABCDE'' = Some exPlayingLobby
      \<and> state exPlayingLobby = Playing
      \<and> rat_of_nat (length (roundHistory exPlayingLobby)) + 1 \<le> rounds (settings exPlayingLobby)
      \<and> 1 < length (availableSongs exPlayingLobby)"
    unfolding av
    by (simp add: exPlaying_def exPlayingLobby_def exLobby_def DEFAULT_SETTINGS_def)
  have b: "map_of (lobbies exManager) ''ABCDE''
        = Some (exLobby [(''p1'', exPlayer ''p1'' ''s1'' True True)] [])
      \<and> (state (exLobby [(''p1'', exPlayer ''p1'' ''s1'' True True)] []) \<noteq> Playing
         \<or> rounds (settings (exLobby [(''p1'', exPlayer ''p1'' ''s1'' True True)] []))
             \<le> rat_of_nat (length (roundHistory (exLobby [(''p1'', exPlayer ''p1'' ''s1'' True True)] [])))
         \<or> (\<forall>s \<in> set (songs (exLobby [(''p1'', exPlayer ''p1'' ''s1'' True True)] [])).
               song_id s \<in> set (map (\<lambda>r. song_id (round_song r))
                 (roundHistory (exLobby [(''p1'', exPlayer ''p1'' ''s1'' True True)] [])))))"
    by (simp add: exManager_def exLobby_def)
  note t1 = startRound_effect [of exPlaying "''ABCDE''" 1 id id 5000]
  note t2 = startRound_effect [of exManager "''ABCDE''" 0 id id 5000]
  from t1 [THEN conjunct2, THEN conjunct2, THEN conjunct2, rule_format, OF a]
  obtain r m' where "startRound exPlaying ''ABCDE'' 1 id id 5000 = Inr (Some r, m')"
    and "round_song r = availableSongs exPlayingLobby ! 1"
    by blast
  then have first: "\<exists>r m'. startRound exPlaying ''ABCDE'' 1 id id 5000 = Inr (Some r, m')
       \<and> song_id (round_song r) = ''b''"
    by (simp add: av exSong_def)
  have second: "startRound exManager ''ABCDE'' 0 id id 5000 = Inr (None, exManager)"
    using t2 [THEN conjunct2, THEN conjunct1, rule_format, OF b] .
  show ?thesis using first second by simp
qed

subsection \<open>Two concrete games\<close>

lemmas call_defs = hostLobby_def callerLobby_def getLobbyBySocket_def getPlayerIdBySocket_def
  putLobby_def afterCall_def

lemmas game_defs = exGameManager_def exGameLobby_def exReadyLobby_def exRoundOf_def
  DEFAULT_SETTINGS_def exSong_def exPlayer_def

lemma exSetup_run: "run exSetup emptyManager = exGameManager (exGameLobby 15 Waiting None [])"
proof -
  have code: "generateCode [] (\<lambda>i. 0) 0 = Some (''AAAAA'', 5)"
    by (subst generateCode.simps) (simp add: codeFrom_eq charAt_def chars_def)
  show ?thesis
    by (simp add: run_def exSetup_def emptyManager_def createLobby_def code addSong_def
        call_defs game_defs Let_def)
qed

lemma ex_updateSettings:
  "step (UpdateSettings ''s1'' (noChange\<lparr>p_rounds := Some k\<rparr>))
       (exGameManager (exGameLobby n st cur h))
     = exGameManager (exGameLobby k st cur h)"
  by (simp add: updateSettings_def mergeSettings_def noChange_def call_defs game_defs Let_def)

lemma ex_startGame:
  "step (StartGame ''s1'') (exGameManager (exGameLobby n st cur h))
     = exGameManager (exGameLobby (min n 3) Playing None [])"
  by (simp add: startGame_def canStartGame_def forEachPlayer_def resetScores_def call_defs
      game_defs Let_def)

lemma ex_startRound1:
  "1 \<le> n \<Longrightarrow>
   step (StartRound ''AAAAA'' 0 id id t) (exGameManager (exGameLobby n Playing None []))
     = exGameManager (exGameLobby n Playing
         (Some (exRoundOf 1 (exSong ''a'' ''Yesterday'' ''The Beatles'') t PhasePlaying)) [])"
  by (simp add: startRound_def availableSongs_def makeGridOptions_def forEachPlayer_def
      resetGuessState_def call_defs game_defs Let_def)

lemma ex_startRound2:
  "2 \<le> n \<Longrightarrow>
   step (StartRound ''AAAAA'' 0 id id t)
       (exGameManager (exGameLobby n Playing None
          [exRoundOf k1 (exSong ''a'' ''Yesterday'' ''The Beatles'') t1 PhaseReveal]))
     = exGameManager (exGameLobby n Playing
         (Some (exRoundOf 2 (exSong ''b'' ''Let It Be'' ''The Beatles'') t PhasePlaying))
         [exRoundOf k1 (exSong ''a'' ''Yesterday'' ''The Beatles'') t1 PhaseReveal])"
  by (simp add: startRound_def availableSongs_def makeGridOptions_def forEachPlayer_def
      resetGuessState_def call_defs game_defs Let_def)

lemma ex_endRound:
  "step (EndRound ''AAAAA'')
       (exGameManager (exGameLobby n Playing (Some (exRoundOf k s t PhasePlaying)) h))
     = exGameManager (exGameLobby n
         (if n \<le> rat_of_nat (length h) + 1 then GameOver else Playing) None
         (h @ [exRoundOf k s t PhaseReveal]))"
  by (simp add: endRound_def call_defs game_defs Let_def)

lemma ex_summary:
  "map_option lobbySummary (map_of (lobbies (exGameManager (exGameLobby n st cur h))) ''AAAAA'')
     = Some (length h, n, st)"
  by (simp add: lobbySummary_def game_defs)

text \<open>
  C3 as stated fails. The host starts a game of three songs (\<open>rounds\<close> is clamped to 3),
  one round is played, and during the second round the host sets \<open>rounds\<close> to 1. When
  that round ends the history holds 2 rounds, more than \<open>rounds\<close>, and the lobby is in
  state \<open>game_over\<close> although the two numbers differ.
\<close>

theorem rounds_counterexample:
  "map_option lobbySummary (map_of (lobbies (run exGame emptyManager)) ''AAAAA'')
     = Some (2, 1, GameOver)"
proof -
  have "run exGame emptyManager
      = exGameManager (exGameLobby 1 GameOver None
          [exRoundOf 1 (exSong ''a'' ''Yesterday'' ''The Beatles'') 3000 PhaseReveal,
           exRoundOf 2 (exSong ''b'' ''Let It Be'' ''The Beatles'') 12000 PhaseReveal])"
    unfolding exGame_def run_def fold_append comp_def exSetup_run [unfolded run_def]
    by (simp add: ex_startGame ex_startRound1 ex_startRound2 ex_endRound ex_updateSettings
        del: step.simps)
  then show ?thesis by (simp only: ex_summary) simp
qed

subsection \<open>The rounds invariant is kept by every call\<close>

lemma getLobbyBySocket_lookup:
  "getLobbyBySocket m sid = Some (c, l) \<Longrightarrow> map_of (lobbies m) c = Some l"
  by (auto simp: getLobbyBySocket_def split: option.splits if_splits)

lemma callerLobby_lookup:
  "callerLobby m sid = Some (c, l, p) \<Longrightarrow> map_of (lobbies m) c = Some l"
  by (auto simp: callerLobby_def split: option.splits dest: getLobbyBySocket_lookup)

lemma hostLobby_lookup:
  "hostLobby m sid = Some (c, l) \<Longrightarrow> map_of (lobbies m) c = Some l"
  by (auto simp: hostLobby_def split: option.splits if_splits dest: callerLobby_lookup)

lemma managerInv_lookup: "managerInv m \<Longrightarrow> map_of (lobbies m) c = Some l \<Longrightarrow> roundsInv l"
  by (simp add: managerInv_def)

lemma managerInv_putLobby: "managerInv m \<Longrightarrow> roundsInv l \<Longrightarrow> managerInv (putLobby c l m)"
  by (simp add: managerInv_def map_of_putLobby)

lemma managerInv_dropSocket: "managerInv (dropSocket sid m) = managerInv m"
  by (simp add: managerInv_def map_of_dropSocket)

lemma managerInv_delete:
  "managerInv m \<Longrightarrow> managerInv (m\<lparr>lobbies := AList.delete c (lobbies m)\<rparr>)"
  by (simp add: managerInv_def delete_conv')

lemma roundsInv_same:
  assumes "roundsInv l" and "rounds (settings l') = rounds (settings l)"
    and "roundHistory l' = roundHistory l" and "state l' = state l"
    and "(currentRound l' = None) = (currentRound l = None)"
  shows "roundsInv l'"
  using assms by (simp add: roundsInv_def)

lemma createLobby_inv:
  "managerInv m \<Longrightarrow> managerInv (afterCall m (createLobby m sid nm av rnd pid now))"
  by (auto simp: createLobby_def afterCall_def managerInv_def update_conv' roundsInv_def
      DEFAULT_SETTINGS_def Let_def split: option.splits)

lemma joinLobby_inv:
  "managerInv m \<Longrightarrow> managerInv (afterCall m (joinLobby m c sid nm av pid))"
proof -
  assume inv: "managerInv m"
  show ?thesis
  proof (cases "joinLobby m c sid nm av pid")
    case (Inl e)
    then show ?thesis using inv by (simp add: afterCall_def)
  next
    case (Inr res)
    then obtain l where l: "map_of (lobbies m) (toUpperCase c) = Some l"
      by (auto simp: joinLobby_def split: option.splits if_splits)
    have "roundsInv l" using inv l by (rule managerInv_lookup)
    then show ?thesis
      using Inr l inv
      by (auto simp: joinLobby_def afterCall_def Let_def managerInv_def update_conv'
          roundsInv_def split: if_splits)
  qed
qed

lemma leaveLobby_inv: "managerInv m \<Longrightarrow> managerInv (snd (leaveLobby m sid))"
proof -
  assume inv: "managerInv m"
  have drop: "managerInv (dropSocket sid m)" using inv by (simp add: managerInv_dropSocket)
  show ?thesis
  proof (cases "map_of (playerToLobby m) sid")
    case None
    then show ?thesis using inv by (simp add: leaveLobby_def)
  next
    case (Some c)
    show ?thesis
    proof (cases "map_of (playerIds m) sid")
      case None
      then show ?thesis using inv Some by (simp add: leaveLobby_def)
    next
      case pid: (Some pid)
      show ?thesis
      proof (cases "c = [] \<or> pid = [] \<or> map_of (lobbies m) c = None")
        case True
        then show ?thesis using inv Some pid by (auto simp: leaveLobby_def)
      next
        case False
        then obtain l where l: "map_of (lobbies m) c = Some l" and ne: "c \<noteq> []" "pid \<noteq> []"
          by auto
        have li: "roundsInv l" using inv l by (rule managerInv_lookup)
        show ?thesis
        proof (cases "AList.delete pid (players l)")
          case Nil
          then show ?thesis
            unfolding leaveLobby_found [OF Some pid ne l]
            using managerInv_delete [OF drop, of c] by (simp add: Let_def)
        next
          case (Cons kp others)
          obtain k p where kp: "kp = (k, p)" by (cases kp)
          have a: "roundsInv (l\<lparr>players := (k, p\<lparr>isHost := True\<rparr>) # others, hostId := k\<rparr>)"
            by (rule roundsInv_same [OF li]) simp_all
          have b: "roundsInv (l\<lparr>players := AList.delete pid (players l)\<rparr>)"
            by (rule roundsInv_same [OF li]) simp_all
          show ?thesis
            unfolding leaveLobby_found [OF Some pid ne l]
            using Cons kp managerInv_putLobby [OF drop a] managerInv_putLobby [OF drop b]
            by (simp add: Let_def)
        qed
      qed
    qed
  qed
qed

lemma host_call_inv:
  assumes inv: "managerInv m"
    and step: "\<And>c l. hostLobby m sid = Some (c, l) \<Longrightarrow> roundsInv l \<Longrightarrow> roundsInv (f l)"
  shows "managerInv (case hostLobby m sid of None \<Rightarrow> m | Some (c, l) \<Rightarrow> putLobby c (f l) m)"
proof (cases "hostLobby m sid")
  case None
  then show ?thesis using inv by simp
next
  case (Some cl)
  obtain c l where cl: "cl = (c, l)" by (cases cl)
  have "roundsInv l"
    using inv hostLobby_lookup Some cl managerInv_lookup by blast
  then have "roundsInv (f l)" using step Some cl by simp
  then show ?thesis using Some cl inv by (simp add: managerInv_putLobby)
qed

lemma snd_host_call:
  "snd (case hostLobby m sid of None \<Rightarrow> (None, m) | Some (c, l) \<Rightarrow> (g c l, putLobby c (f l) m))
     = (case hostLobby m sid of None \<Rightarrow> m | Some (c, l) \<Rightarrow> putLobby c (f l) m)"
  by (auto split: option.splits)

lemma updateSettings_inv:
  assumes "managerInv m" and "okOp m (UpdateSettings sid ps)"
  shows "managerInv (snd (updateSettings m sid ps))"
proof -
  have "snd (updateSettings m sid ps)
      = (case hostLobby m sid of None \<Rightarrow> m
         | Some (c, l) \<Rightarrow> putLobby c (l\<lparr>settings := mergeSettings (settings l) ps\<rparr>) m)"
    by (simp add: updateSettings_def Let_def split: option.splits)
  moreover have "managerInv \<dots>"
  proof (rule host_call_inv [OF assms(1)])
    fix c l
    assume h: "hostLobby m sid = Some (c, l)" and li: "roundsInv l"
    show "roundsInv (l\<lparr>settings := mergeSettings (settings l) ps\<rparr>)"
    proof (cases "p_rounds ps")
      case None
      then have "rounds (mergeSettings (settings l) ps) = rounds (settings l)"
        by (simp add: mergeSettings_def)
      then show ?thesis by (intro roundsInv_same [OF li]) simp_all
    next
      case (Some n)
      then have "0 \<le> n" and "state l = Waiting" using assms(2) h by simp_all
      moreover have "rounds (mergeSettings (settings l) ps) = n"
        using Some by (simp add: mergeSettings_def)
      ultimately show ?thesis using li by (auto simp: roundsInv_def)
    qed
  qed
  ultimately show ?thesis by simp
qed

lemma addSong_inv: "managerInv m \<Longrightarrow> managerInv (snd (addSong m sid sd nid))"
proof -
  assume inv: "managerInv m"
  have "snd (addSong m sid sd nid)
      = (case hostLobby m sid of None \<Rightarrow> m
         | Some (c, l) \<Rightarrow> putLobby c (l\<lparr>songs := songs l @ [sd\<lparr>song_id := nid\<rparr>]\<rparr>) m)"
    by (simp add: addSong_def Let_def split: option.splits)
  moreover have "managerInv \<dots>"
    by (rule host_call_inv [OF inv]) (erule roundsInv_same, simp_all)
  ultimately show ?thesis by simp
qed

lemma addSongsBulk_inv: "managerInv m \<Longrightarrow> managerInv (snd (addSongsBulk m sid sds nids))"
proof -
  assume inv: "managerInv m"
  have "snd (addSongsBulk m sid sds nids)
      = (case hostLobby m sid of None \<Rightarrow> m
         | Some (c, l) \<Rightarrow>
             putLobby c (l\<lparr>songs := songs l
                @ map (\<lambda>(i, s). s\<lparr>song_id := nids i\<rparr>) (enumerate 0 sds)\<rparr>) m)"
    by (simp add: addSongsBulk_def Let_def split: option.splits)
  moreover have "managerInv \<dots>"
    by (rule host_call_inv [OF inv]) (erule roundsInv_same, simp_all)
  ultimately show ?thesis by simp
qed

lemma removeSong_inv: "managerInv m \<Longrightarrow> managerInv (snd (removeSong m sid songId))"
proof -
  assume inv: "managerInv m"
  have "snd (removeSong m sid songId)
      = (case hostLobby m sid of None \<Rightarrow> m
         | Some (c, l) \<Rightarrow>
             putLobby c (l\<lparr>songs := filter (\<lambda>s. song_id s \<noteq> songId) (songs l)\<rparr>) m)"
    by (simp add: removeSong_def Let_def split: option.splits)
  moreover have "managerInv \<dots>"
    by (rule host_call_inv [OF inv]) (erule roundsInv_same, simp_all)
  ultimately show ?thesis by simp
qed
lemma toggleReady_inv: "managerInv m \<Longrightarrow> managerInv (afterCall m (toggleReady m sid))"
proof -
  assume inv: "managerInv m"
  show ?thesis
  proof (cases "callerLobby m sid")
    case None
    then show ?thesis using inv by (simp add: toggleReady_def afterCall_def)
  next
    case (Some clp)
    obtain c l pid where clp: "clp = (c, l, pid)" by (cases clp)
    have li: "roundsInv l"
      using inv callerLobby_lookup Some clp managerInv_lookup by blast
    show ?thesis
    proof (cases "map_of (players l) pid")
      case None
      then show ?thesis using inv Some clp by (simp add: toggleReady_def afterCall_def)
    next
      case p: (Some p)
      have "roundsInv (l\<lparr>players := AList.update pid (p\<lparr>isReady := \<not> isReady p\<rparr>) (players l)\<rparr>)"
        by (rule roundsInv_same [OF li]) simp_all
      then show ?thesis
        using inv Some clp p
        by (simp add: toggleReady_def afterCall_def Let_def managerInv_putLobby)
    qed
  qed
qed

lemma startGame_inv: "managerInv m \<Longrightarrow> managerInv (snd (startGame m sid))"
proof -
  assume inv: "managerInv m"
  show ?thesis
  proof (cases "hostLobby m sid")
    case None
    then show ?thesis using inv by (simp add: startGame_def)
  next
    case (Some cl)
    obtain c l where cl: "cl = (c, l)" by (cases cl)
    have li: "roundsInv l"
      using inv hostLobby_lookup Some cl managerInv_lookup by blast
    then have "0 \<le> rounds (settings l)" by (simp add: roundsInv_def)
    then have "roundsInv ((forEachPlayer resetScores l)
        \<lparr>state := Playing, roundHistory := [], currentRound := None,
          settings := (settings l)\<lparr>rounds := min (rounds (settings l))
                                              (rat_of_nat (length (songs l)))\<rparr>\<rparr>)"
      by (simp add: roundsInv_def forEachPlayer_fields)
    then show ?thesis
      using inv Some cl
      by (simp add: startGame_def Let_def forEachPlayer_fields managerInv_putLobby)
  qed
qed

lemma startRound_inv:
  "managerInv m \<Longrightarrow> managerInv (afterCall m (startRound m c pick sh1 sh2 now))"
proof -
  assume inv: "managerInv m"
  show ?thesis
  proof (cases "startRound m c pick sh1 sh2 now")
    case (Inl e)
    then show ?thesis using inv by (simp add: afterCall_def)
  next
    case (Inr res)
    obtain ro m' where res: "res = (ro, m')" by (cases res)
    show ?thesis
    proof (cases ro)
      case None
      then have "m' = m"
        using Inr res
        by (auto simp: startRound_def Let_def split: option.splits if_splits)
      then show ?thesis using inv Inr res by (simp add: afterCall_def)
    next
      case (Some r)
      with Inr res have s: "startRound m c pick sh1 sh2 now = Inr (Some r, m')" by simp
      from startRound_Some [OF s] obtain l where l: "map_of (lobbies m) c = Some l"
        "state l = Playing" "rat_of_nat (length (roundHistory l)) + 1 \<le> rounds (settings l)"
        "pick < length (availableSongs l)"
        by blast
      have li: "roundsInv l" using inv l(1) by (rule managerInv_lookup)
      define l' where "l' = (forEachPlayer resetGuessState l)\<lparr>currentRound := Some r\<rparr>"
      have m': "m' = putLobby c l' m"
        using s unfolding startRound_started [OF l] l'_def by (auto simp: Let_def)
      have "roundsInv l'"
        using li l(2,3) by (simp add: roundsInv_def l'_def forEachPlayer_fields)
      then show ?thesis
        using inv s m' by (simp add: afterCall_def managerInv_putLobby)
    qed
  qed
qed

lemma submitGuess_inv: "managerInv m \<Longrightarrow> managerInv (afterCall m (submitGuess m sid g now))"
proof -
  assume inv: "managerInv m"
  show ?thesis
  proof (cases "callerLobby m sid")
    case None
    then show ?thesis using inv by (simp add: submitGuess_def afterCall_def)
  next
    case (Some clp)
    obtain c l pid where clp: "clp = (c, l, pid)" by (cases clp)
    have li: "roundsInv l"
      using inv callerLobby_lookup Some clp managerInv_lookup by blast
    show ?thesis
    proof (cases "currentRound l")
      case None
      then show ?thesis using inv Some clp by (simp add: submitGuess_def afterCall_def)
    next
      case r: (Some r)
      show ?thesis
      proof (cases "map_of (players l) pid")
        case None
        then show ?thesis using inv Some clp r by (simp add: submitGuess_def afterCall_def)
      next
        case p: (Some p)
        show ?thesis
        proof (cases "hasGuessed p")
          case True
          then show ?thesis
            using inv Some clp r p by (simp add: submitGuess_def afterCall_def)
        next
          case False
          have keep: "\<And>ps r'. roundsInv (l\<lparr>players := ps, currentRound := Some r'\<rparr>)"
            using r by (intro roundsInv_same [OF li]) simp_all
          show ?thesis
            unfolding submitGuess_accepted [OF Some [unfolded clp] r p False]
            using inv by (simp add: Let_def afterCall_def managerInv_putLobby keep)
        qed
      qed
    qed
  qed
qed

lemma endRound_inv: "managerInv m \<Longrightarrow> managerInv (snd (endRound m c))"
proof -
  assume inv: "managerInv m"
  show ?thesis
  proof (cases "map_of (lobbies m) c")
    case None
    then show ?thesis using inv by (simp add: endRound_def)
  next
    case (Some l)
    have li: "roundsInv l" using inv Some by (rule managerInv_lookup)
    show ?thesis
    proof (cases "currentRound l")
      case None
      then show ?thesis using inv Some by (simp add: endRound_def)
    next
      case r: (Some r)
      have "\<And>l'. roundHistory l' = roundHistory l @ [r\<lparr>phase := PhaseReveal\<rparr>]
          \<Longrightarrow> settings l' = settings l \<Longrightarrow> currentRound l' = None
          \<Longrightarrow> state l' = (if rounds (settings l) \<le> rat_of_nat (length (roundHistory l)) + 1
                            then GameOver else Playing)
          \<Longrightarrow> roundsInv l'"
        using li r by (auto simp: roundsInv_def)
      then show ?thesis
        using inv Some r li
        by (simp add: endRound_def Let_def managerInv_putLobby roundsInv_def)
    qed
  qed
qed

lemma resetLobby_inv: "managerInv m \<Longrightarrow> managerInv (snd (resetLobby m c))"
proof -
  assume inv: "managerInv m"
  show ?thesis
  proof (cases "map_of (lobbies m) c")
    case None
    then show ?thesis using inv by (simp add: resetLobby_def)
  next
    case (Some l)
    have "roundsInv l" using inv Some by (rule managerInv_lookup)
    then have "roundsInv (forEachPlayer resetForLobby
        (l\<lparr>state := Waiting, currentRound := None, roundHistory := []\<rparr>))"
      by (simp add: roundsInv_def forEachPlayer_fields)
    then show ?thesis
      using inv Some by (simp add: resetLobby_def Let_def managerInv_putLobby)
  qed
qed

lemma kickPlayer_inv: "managerInv m \<Longrightarrow> managerInv (snd (kickPlayer m sid target))"
proof -
  assume inv: "managerInv m"
  show ?thesis
  proof (cases "hostLobby m sid")
    case None
    then show ?thesis using inv by (simp add: kickPlayer_def)
  next
    case (Some cl)
    obtain c l where cl: "cl = (c, l)" by (cases cl)
    have li: "roundsInv l"
      using inv hostLobby_lookup Some cl managerInv_lookup by blast
    have "roundsInv (l\<lparr>players := AList.delete target (players l)\<rparr>)"
      by (rule roundsInv_same [OF li]) simp_all
    then show ?thesis
      using inv Some cl
      by (auto simp: kickPlayer_def Let_def managerInv_putLobby managerInv_dropSocket
          split: option.splits)
  qed
qed

lemma dropSockets_lobbies:
  "lobbies (fold (\<lambda>p a. dropSocket (socketId p) a) ps acc) = lobbies acc"
  by (induction ps arbitrary: acc) (simp_all add: map_of_dropSocket)

lemma cleanup_fold_inv:
  "managerInv acc \<Longrightarrow>
   managerInv (fold (\<lambda>(c, l) acc.
             if now - createdAt l > maxAge
             then (let acc1 = fold (\<lambda>p a. dropSocket (socketId p) a) (map snd (players l)) acc
                   in acc1\<lparr>lobbies := AList.delete c (lobbies acc1)\<rparr>)
             else acc) ls acc)"
proof (induction ls arbitrary: acc)
  case Nil
  then show ?case by simp
next
  case (Cons x ls)
  obtain c l where x: "x = (c, l)" by (cases x)
  have "managerInv (fold (\<lambda>p a. dropSocket (socketId p) a) (map snd (players l)) acc)"
    using Cons.prems by (simp add: managerInv_def dropSockets_lobbies)
  then have "managerInv
      (let acc1 = fold (\<lambda>p a. dropSocket (socketId p) a) (map snd (players l)) acc
       in acc1\<lparr>lobbies := AList.delete c (lobbies acc1)\<rparr>)"
    by (simp add: Let_def managerInv_delete)
  then show ?case using Cons x by simp
qed

lemma cleanup_inv: "managerInv m \<Longrightarrow> managerInv (cleanup m now)"
  unfolding cleanup_def by (rule cleanup_fold_inv)

lemma step_inv: "managerInv m \<Longrightarrow> okOp m x \<Longrightarrow> managerInv (step x m)"
proof (cases x)
  case (UpdateSettings sid ps)
  assume "managerInv m" and "okOp m x"
  then show ?thesis using UpdateSettings by (simp add: updateSettings_inv)
qed (simp_all add: createLobby_inv joinLobby_inv leaveLobby_inv addSong_inv addSongsBulk_inv
    removeSong_inv toggleReady_inv startGame_inv startRound_inv submitGuess_inv endRound_inv
    resetLobby_inv kickPlayer_inv cleanup_inv)

lemma run_inv: "managerInv m \<Longrightarrow> okRun m ops \<Longrightarrow> managerInv (run ops m)"
proof (induction ops arbitrary: m)
  case Nil
  then show ?case by (simp add: run_def)
next
  case (Cons x xs)
  then have "managerInv (step x m)" and "okRun (step x m) xs"
    by (simp_all add: step_inv)
  then have "managerInv (run xs (step x m))" by (rule Cons.IH)
  then show ?case by (simp add: run_def)
qed

lemma emptyManager_inv: "managerInv emptyManager"
  by (simp add: managerInv_def emptyManager_def)

lemma endRound_ended:
  assumes "endRound m c = (Some res, m')" and "map_of (lobbies m) c = Some l"
  shows "\<exists>r. currentRound l = Some r
     \<and> m' = putLobby c
          (l\<lparr>roundHistory := roundHistory l @ [r\<lparr>phase := PhaseReveal\<rparr>],
             state := (if rounds (settings l) \<le> rat_of_nat (length (roundHistory l)) + 1
                       then GameOver else state l),
             currentRound := None\<rparr>) m
     \<and> isGameOver res = (rounds (settings l) \<le> rat_of_nat (length (roundHistory l)) + 1)"
  using assms
  by (cases "currentRound l") (auto simp: endRound_def Let_def)

text \<open>
  C3, as the code has it. Take any sequence of calls, from the empty manager, in which
  \<open>updateSettings\<close> changes \<open>rounds\<close> only while the lobby is waiting and only to a
  non-negative number. Then in every lobby the history is never longer than \<open>rounds\<close>, a
  lobby in state \<open>game_over\<close> has exactly \<open>rounds\<close> rounds in its history, and a call of
  \<open>endRound\<close> that ends a round leaves the lobby in state \<open>game_over\<close> exactly when the
  history it has just extended has \<open>rounds\<close> entries, which is also what it reports.
\<close>

theorem rounds_invariant:
  assumes "okRun emptyManager ops" and "map_of (lobbies (run ops emptyManager)) c = Some l"
  shows "rat_of_nat (length (roundHistory l)) \<le> rounds (settings l)
    \<and> (state l = GameOver \<longrightarrow> rat_of_nat (length (roundHistory l)) = rounds (settings l))
    \<and> (\<forall>res m'. endRound (run ops emptyManager) c = (Some res, m') \<longrightarrow>
          (\<exists>l'. map_of (lobbies m') c = Some l'
             \<and> length (roundHistory l') = length (roundHistory l) + 1
             \<and> rat_of_nat (length (roundHistory l')) \<le> rounds (settings l')
             \<and> (state l' = GameOver
                  \<longleftrightarrow> rat_of_nat (length (roundHistory l')) = rounds (settings l'))
             \<and> (isGameOver res \<longleftrightarrow> state l' = GameOver)))"
proof -
  have "managerInv (run ops emptyManager)"
    using emptyManager_inv assms(1) by (rule run_inv)
  then have li: "roundsInv l" using assms(2) by (rule managerInv_lookup)
  have a: "rat_of_nat (length (roundHistory l)) \<le> rounds (settings l)"
    and b: "state l = GameOver \<longrightarrow> rat_of_nat (length (roundHistory l)) = rounds (settings l)"
    using li by (simp_all add: roundsInv_def)
  have c: "\<forall>res m'. endRound (run ops emptyManager) c = (Some res, m') \<longrightarrow>
          (\<exists>l'. map_of (lobbies m') c = Some l'
             \<and> length (roundHistory l') = length (roundHistory l) + 1
             \<and> rat_of_nat (length (roundHistory l')) \<le> rounds (settings l')
             \<and> (state l' = GameOver
                  \<longleftrightarrow> rat_of_nat (length (roundHistory l')) = rounds (settings l'))
             \<and> (isGameOver res \<longleftrightarrow> state l' = GameOver))"
  proof (intro allI impI)
    fix res m'
    assume e: "endRound (run ops emptyManager) c = (Some res, m')"
    define l' where "l' = l\<lparr>roundHistory := roundHistory l @ [the (currentRound l)\<lparr>phase := PhaseReveal\<rparr>],
             state := (if rounds (settings l) \<le> rat_of_nat (length (roundHistory l)) + 1
                       then GameOver else state l),
             currentRound := None\<rparr>"
    from endRound_ended [OF e assms(2)] have r: "currentRound l \<noteq> None"
      and m': "m' = putLobby c l' (run ops emptyManager)"
      and over: "isGameOver res = (rounds (settings l) \<le> rat_of_nat (length (roundHistory l)) + 1)"
      by (auto simp: l'_def)
    have playing: "state l = Playing"
      and room: "rat_of_nat (length (roundHistory l)) + 1 \<le> rounds (settings l)"
      using li r by (simp_all add: roundsInv_def)
    have g1: "map_of (lobbies m') c = Some l'" by (simp add: m' map_of_putLobby)
    have g2: "length (roundHistory l') = length (roundHistory l) + 1" by (simp add: l'_def)
    have g3: "rat_of_nat (length (roundHistory l')) \<le> rounds (settings l')"
      using room by (simp add: l'_def)
    have g4: "state l' = GameOver
                  \<longleftrightarrow> rat_of_nat (length (roundHistory l')) = rounds (settings l')"
      using room playing by (auto simp: l'_def)
    have g5: "isGameOver res \<longleftrightarrow> state l' = GameOver"
      using over playing by (simp add: l'_def)
    show "\<exists>l'. map_of (lobbies m') c = Some l'
             \<and> length (roundHistory l') = length (roundHistory l) + 1
             \<and> rat_of_nat (length (roundHistory l')) \<le> rounds (settings l')
             \<and> (state l' = GameOver
                  \<longleftrightarrow> rat_of_nat (length (roundHistory l')) = rounds (settings l'))
             \<and> (isGameOver res \<longleftrightarrow> state l' = GameOver)"
      by (intro exI [of _ l'] conjI) fact+
  qed
  from a b c show ?thesis by blast
qed

lemma okRun_append: "okRun m (xs @ ys) = (okRun m xs \<and> okRun (run xs m) ys)"
  by (induction xs arbitrary: m) (simp_all add: run_def)

theorem rounds_invariant_witness:
  "okRun emptyManager exGameOk
   \<and> map_option lobbySummary (map_of (lobbies (run exGameOk emptyManager)) ''AAAAA'')
       = Some (2, 2, GameOver)
   \<and> rat_of_nat (length (roundHistory (exGameLobby 2 GameOver None
          [exRoundOf 1 (exSong ''a'' ''Yesterday'' ''The Beatles'') 3000 PhaseReveal,
           exRoundOf 2 (exSong ''b'' ''Let It Be'' ''The Beatles'') 12000 PhaseReveal])))
       = rounds (settings (exGameLobby 2 GameOver None
          [exRoundOf 1 (exSong ''a'' ''Yesterday'' ''The Beatles'') 3000 PhaseReveal,
           exRoundOf 2 (exSong ''b'' ''Let It Be'' ''The Beatles'') 12000 PhaseReveal]))"
proof -
  let ?l = "exGameLobby 2 GameOver None
          [exRoundOf 1 (exSong ''a'' ''Yesterday'' ''The Beatles'') 3000 PhaseReveal,
           exRoundOf 2 (exSong ''b'' ''Let It Be'' ''The Beatles'') 12000 PhaseReveal]"
  have ok1: "okRun emptyManager exSetup"
    by (simp add: exSetup_def del: step.simps)
  have host: "hostLobby (exGameManager (exGameLobby 15 Waiting None [])) ''s1''
      = Some (''AAAAA'', exGameLobby 15 Waiting None [])"
    by (simp add: call_defs exGameManager_def exGameLobby_def exReadyLobby_def)
  have ok2: "okRun (exGameManager (exGameLobby 15 Waiting None []))
      [UpdateSettings ''s1'' (noChange\<lparr>p_rounds := Some 2\<rparr>),
       StartGame ''s1'', StartRound ''AAAAA'' 0 id id 3000, EndRound ''AAAAA'',
       StartRound ''AAAAA'' 0 id id 12000, EndRound ''AAAAA'']"
  proof -
    have "state (exGameLobby 15 Waiting None []) = Waiting" by (simp add: exGameLobby_def)
    then show ?thesis by (simp add: host del: step.simps)
  qed
  have ok: "okRun emptyManager exGameOk"
    unfolding exGameOk_def okRun_append exSetup_run using ok1 ok2 by simp
  have final: "run exGameOk emptyManager = exGameManager ?l"
    unfolding exGameOk_def run_def fold_append comp_def exSetup_run [unfolded run_def]
    by (simp add: ex_startGame ex_startRound1 ex_startRound2 ex_endRound ex_updateSettings
        del: step.simps)
  have look: "map_of (lobbies (run exGameOk emptyManager)) ''AAAAA'' = Some ?l"
    by (simp add: final exGameManager_def)
  have over: "state ?l = GameOver" by (simp add: exGameLobby_def)
  have sum: "map_option lobbySummary (map_of (lobbies (run exGameOk emptyManager)) ''AAAAA'')
       = Some (2, 2, GameOver)"
    unfolding final by (simp only: ex_summary) simp
  have "rat_of_nat (length (roundHistory ?l)) = rounds (settings ?l)"
    using rounds_invariant [OF ok look] over by blast
  with ok sum show ?thesis by simp
qed

end
